theory Spec2Isabelle
  imports Main "HOL-Library.AList"
begin

section \<open>JSON documents and the Python operations applied to them\<close>

text \<open>
  The checker of \<^verbatim>\<open>scripts/openapi-conformance.py\<close> works on the trees that
  \<^verbatim>\<open>json.load\<close> returns. A dict is an association list in insertion order (keys
  of a decoded document are strings); \<^verbatim>\<open>None\<close> is \<open>JNull\<close>. Numbers are
  integers here: no function of the checker computes with a number.
\<close>

datatype json =
    JNull
  | JBool bool
  | JNum int
  | JStr string
  | JArr "json list"
  | JObj "(string \<times> json) list"

text \<open>
  The exceptions the checker can end with. \<open>OutOfModel\<close> marks the few places where
  the value Python computes is not a tree of strings-keyed dicts (\<^verbatim>\<open>dict(x)\<close> of a
  non-empty list, a dict keyed by a non-string): the model stops there.
\<close>

datatype error = RecursionError | AttributeError | TypeError | ValueError | OutOfModel

type_synonym 'a result = "error + 'a"

definition thenE :: "'a result \<Rightarrow> ('a \<Rightarrow> 'b result) \<Rightarrow> 'b result" where
  "thenE r f = (case r of Inl e \<Rightarrow> Inl e | Inr x \<Rightarrow> f x)"

text \<open>\<^verbatim>\<open>bool(x)\<close>.\<close>

fun truthy :: "json \<Rightarrow> bool" where
  "truthy JNull = False"
| "truthy (JBool b) = b"
| "truthy (JNum n) = (n \<noteq> 0)"
| "truthy (JStr s) = (s \<noteq> [])"
| "truthy (JArr xs) = (xs \<noteq> [])"
| "truthy (JObj kvs) = (kvs \<noteq> [])"

text \<open>\<^verbatim>\<open>x.get(key, default)\<close>: only a dict has the method.\<close>

fun get_or :: "json \<Rightarrow> string \<Rightarrow> json \<Rightarrow> json result" where
  "get_or (JObj kvs) k d = Inr (case map_of kvs k of Some v \<Rightarrow> v | None \<Rightarrow> d)"
| "get_or _ k d = Inl AttributeError"

text \<open>\<^verbatim>\<open>d.get(key, default)\<close> where \<open>d\<close> is known to be a dict.\<close>

definition dget :: "(string \<times> json) list \<Rightarrow> string \<Rightarrow> json \<Rightarrow> json" where
  "dget kvs k d = (case map_of kvs k of Some v \<Rightarrow> v | None \<Rightarrow> d)"

definition has_key :: "(string \<times> json) list \<Rightarrow> string \<Rightarrow> bool" where
  "has_key kvs k = (map_of kvs k \<noteq> None)"

text \<open>\<^verbatim>\<open>d[key] = value\<close>: an existing key keeps its place, a new one goes last.\<close>

definition setitem :: "(string \<times> json) list \<Rightarrow> string \<Rightarrow> json \<Rightarrow> (string \<times> json) list" where
  "setitem kvs k v = AList.update k v kvs"

text \<open>\<^verbatim>\<open>for key, value in src.items(): if key != skip: d[key] = value\<close>.\<close>

fun copy_other :: "string \<Rightarrow> (string \<times> json) list \<Rightarrow> (string \<times> json) list \<Rightarrow> (string \<times> json) list" where
  "copy_other skip d [] = d"
| "copy_other skip d ((k, v) # src) =
     copy_other skip (if k \<noteq> skip then setitem d k v else d) src"

text \<open>\<^verbatim>\<open>dict(x)\<close>.\<close>

fun py_dict :: "json \<Rightarrow> (string \<times> json) list result" where
  "py_dict (JObj kvs) = Inr kvs"
| "py_dict (JArr xs) = (if xs = [] then Inr [] else Inl OutOfModel)"
| "py_dict (JStr s) = (if s = [] then Inr [] else Inl ValueError)"
| "py_dict _ = Inl TypeError"

text \<open>Iteration (\<^verbatim>\<open>for x in v\<close>): a dict yields its keys, a string its characters.\<close>

fun py_iter :: "json \<Rightarrow> json list result" where
  "py_iter (JArr xs) = Inr xs"
| "py_iter (JObj kvs) = Inr (map (\<lambda>(k, v). JStr k) kvs)"
| "py_iter (JStr s) = Inr (map (\<lambda>c. JStr [c]) s)"
| "py_iter _ = Inl TypeError"

text \<open>\<^verbatim>\<open>s.startswith(p)\<close>, \<^verbatim>\<open>s.endswith(p)\<close>, \<^verbatim>\<open>p in s\<close> on strings.\<close>

definition startswith :: "string \<Rightarrow> string \<Rightarrow> bool" where
  "startswith s p = (take (length p) s = p)"

definition endswith :: "string \<Rightarrow> string \<Rightarrow> bool" where
  "endswith s p = (length p \<le> length s \<and> drop (length s - length p) s = p)"

fun substring :: "string \<Rightarrow> string \<Rightarrow> bool" where
  "substring p [] = (p = [])"
| "substring p (c # s) = (startswith (c # s) p \<or> substring p s)"

text \<open>\<^verbatim>\<open>s.split("/")\<close>: always at least one piece.\<close>

fun split_acc :: "char \<Rightarrow> string \<Rightarrow> string \<Rightarrow> string list" where
  "split_acc sep acc [] = [rev acc]"
| "split_acc sep acc (c # s) =
     (if c = sep then rev acc # split_acc sep [] s else split_acc sep (c # acc) s)"

definition split :: "char \<Rightarrow> string \<Rightarrow> string list" where
  "split sep s = split_acc sep [] s"

text \<open>\<^verbatim>\<open>key in x\<close> for a string key, and \<^verbatim>\<open>x[key]\<close>, on any value.\<close>

fun py_in :: "string \<Rightarrow> json \<Rightarrow> bool result" where
  "py_in k (JObj kvs) = Inr (has_key kvs k)"
| "py_in k (JStr s) = Inr (substring k s)"
| "py_in k (JArr xs) = Inr (JStr k \<in> set xs)"
| "py_in k _ = Inl TypeError"

fun subscript :: "json \<Rightarrow> string \<Rightarrow> json result" where
  "subscript (JObj kvs) k = Inr (dget kvs k JNull)"
| "subscript _ k = Inl TypeError"

section \<open>OpenAPIResolver\<close>

text \<open>
  The resolver object is its document \<open>doc\<close> and its cache, a dict from reference
  strings to resolved schemas; every method takes the cache and returns it updated.
  The first argument bounds the nesting of calls, as the interpreter's recursion limit
  does: a call with no frame left ends with \<open>RecursionError\<close>.
\<close>

type_synonym cache = "string \<rightharpoonup> json"

text \<open>
  The loop of \<^verbatim>\<open>resolve_ref\<close> over the path components; \<open>None\<close> is its early
  \<^verbatim>\<open>return {}\<close> on a component below something that is not a dict.
\<close>

fun walk :: "json \<Rightarrow> string list \<Rightarrow> json option" where
  "walk result [] = Some result"
| "walk (JObj kvs) (part # parts) = walk (dget kvs part (JObj [])) parts"
| "walk _ (part # parts) = None"

text \<open>The dict comprehension \<^verbatim>\<open>{key: resolve(value) for key, value in d.items()}\<close>.\<close>

fun resolve_values ::
  "(cache \<Rightarrow> json \<Rightarrow> (json \<times> cache) result) \<Rightarrow> cache \<Rightarrow> (string \<times> json) list
     \<Rightarrow> ((string \<times> json) list \<times> cache) result" where
  "resolve_values f c [] = Inr ([], c)"
| "resolve_values f c ((k, v) # kvs) =
     (case f c v of Inl e \<Rightarrow> Inl e
      | Inr (v', c') \<Rightarrow>
          (case resolve_values f c' kvs of Inl e \<Rightarrow> Inl e
           | Inr (rest, c'') \<Rightarrow> Inr ((k, v') # rest, c'')))"

text \<open>
  \<^verbatim>\<open>set(a)\<close> followed by \<^verbatim>\<open>update(b)\<close> and \<^verbatim>\<open>list(...)\<close>: the members must be
  hashable. Python leaves the order of the list open; the model lists each member once,
  in order of first occurrence.
\<close>

fun hashable :: "json \<Rightarrow> bool" where
  "hashable (JArr xs) = False"
| "hashable (JObj kvs) = False"
| "hashable _ = True"

definition union_list :: "json list \<Rightarrow> json list \<Rightarrow> json list result" where
  "union_list a b =
     (if list_all hashable (a @ b) then Inr (rev (remdups (rev (a @ b)))) else Inl TypeError)"

text \<open>
  \<^verbatim>\<open>_merge_schemas(target, source)\<close>; \<open>rs\<close> is \<^verbatim>\<open>self.resolve_schema\<close>. The target
  is the dict \<^verbatim>\<open>merged\<close> of the caller, returned updated.
\<close>

definition merge_properties ::
  "(cache \<Rightarrow> json \<Rightarrow> (json \<times> cache) result) \<Rightarrow> cache \<Rightarrow> (string \<times> json) list \<Rightarrow> json
     \<Rightarrow> ((string \<times> json) list \<times> cache) result" where
  "merge_properties rs c target source =
     thenE (py_in ''properties'' source) (\<lambda>present.
       if \<not> present then Inr (target, c)
       else thenE (subscript source ''properties'') (\<lambda>props.
         thenE (rs c (JObj [(''properties'', props)])) (\<lambda>(r, c').
           thenE (get_or r ''properties'' (JObj [])) (\<lambda>new.
             thenE (py_dict (dget target ''properties'' (JObj []))) (\<lambda>old.
               thenE (py_dict new) (\<lambda>newkvs.
                 Inr (setitem target ''properties''
                        (JObj (foldl (\<lambda>d (k, v). setitem d k v) old newkvs)), c')))))))"

definition merge_required :: "(string \<times> json) list \<Rightarrow> json \<Rightarrow> (string \<times> json) list result" where
  "merge_required target source =
     thenE (py_in ''required'' source) (\<lambda>present.
       if \<not> present then Inr target
       else thenE (py_iter (dget target ''required'' (JArr []))) (\<lambda>existing.
         thenE (subscript source ''required'') (\<lambda>req.
           thenE (py_iter req) (\<lambda>new.
             thenE (union_list existing new) (\<lambda>u.
               Inr (setitem target ''required'' (JArr u)))))))"

fun merge_keys :: "string list \<Rightarrow> (string \<times> json) list \<Rightarrow> json \<Rightarrow> (string \<times> json) list result" where
  "merge_keys [] target source = Inr target"
| "merge_keys (key # keys) target source =
     thenE (py_in key source) (\<lambda>present.
       if \<not> present then merge_keys keys target source
       else thenE (subscript source key) (\<lambda>v. merge_keys keys (setitem target key v) source))"

definition merge_schemas ::
  "(cache \<Rightarrow> json \<Rightarrow> (json \<times> cache) result) \<Rightarrow> cache \<Rightarrow> (string \<times> json) list \<Rightarrow> json
     \<Rightarrow> ((string \<times> json) list \<times> cache) result" where
  "merge_schemas rs c target source =
     thenE (merge_properties rs c target source) (\<lambda>(t1, c').
       thenE (merge_required t1 source) (\<lambda>t2.
         thenE (merge_keys [''type'', ''description''] t2 source) (\<lambda>t3. Inr (t3, c'))))"

text \<open>The loop of the \<^verbatim>\<open>allOf\<close> branch over the sub-schemas.\<close>

fun merge_all ::
  "(cache \<Rightarrow> json \<Rightarrow> (json \<times> cache) result) \<Rightarrow> cache \<Rightarrow> (string \<times> json) list \<Rightarrow> json list
     \<Rightarrow> ((string \<times> json) list \<times> cache) result" where
  "merge_all rs c merged [] = Inr (merged, c)"
| "merge_all rs c merged (sub_schema # subs) =
     (case rs c sub_schema of Inl e \<Rightarrow> Inl e
      | Inr (resolved, c') \<Rightarrow>
          (case merge_schemas rs c' merged resolved of Inl e \<Rightarrow> Inl e
           | Inr (merged', c'') \<Rightarrow> merge_all rs c'' merged' subs))"

text \<open>The filter of the \<^verbatim>\<open>oneOf\<close>/\<^verbatim>\<open>anyOf\<close> branch.\<close>

fun is_null_option :: "json \<Rightarrow> bool" where
  "is_null_option (JObj kvs) = (dget kvs ''type'' JNull = JStr ''null'')"
| "is_null_option _ = False"

definition non_null_options :: "json list \<Rightarrow> json list" where
  "non_null_options options = filter (\<lambda>opt. \<not> is_null_option opt) options"

definition choose_options :: "(string \<times> json) list \<Rightarrow> json" where
  "choose_options schema =
     (if truthy (dget schema ''oneOf'' JNull) then dget schema ''oneOf'' JNull
      else dget schema ''anyOf'' (JArr []))"

text \<open>
  The last branch of \<^verbatim>\<open>resolve_schema\<close>: a copy of the node with its
  \<^verbatim>\<open>properties\<close>, \<^verbatim>\<open>items\<close> and dict-valued \<^verbatim>\<open>additionalProperties\<close> resolved.
\<close>

definition resolve_properties ::
  "(cache \<Rightarrow> json \<Rightarrow> (json \<times> cache) result) \<Rightarrow> cache \<Rightarrow> (string \<times> json) list
     \<Rightarrow> ((string \<times> json) list \<times> cache) result" where
  "resolve_properties rs c result =
     (if has_key result ''properties'' then
        (case dget result ''properties'' JNull of
           JObj props \<Rightarrow>
             thenE (resolve_values rs c props) (\<lambda>(props', c').
               Inr (setitem result ''properties'' (JObj props'), c'))
         | _ \<Rightarrow> Inl AttributeError)
      else Inr (result, c))"

definition resolve_items ::
  "(cache \<Rightarrow> json \<Rightarrow> (json \<times> cache) result) \<Rightarrow> cache \<Rightarrow> (string \<times> json) list
     \<Rightarrow> ((string \<times> json) list \<times> cache) result" where
  "resolve_items rs c result =
     (if has_key result ''items'' then
        thenE (rs c (dget result ''items'' JNull)) (\<lambda>(v, c').
          Inr (setitem result ''items'' v, c'))
      else Inr (result, c))"

definition resolve_additional ::
  "(cache \<Rightarrow> json \<Rightarrow> (json \<times> cache) result) \<Rightarrow> cache \<Rightarrow> (string \<times> json) list
     \<Rightarrow> ((string \<times> json) list \<times> cache) result" where
  "resolve_additional rs c result =
     (case map_of result ''additionalProperties'' of
        Some (JObj ap) \<Rightarrow>
          thenE (rs c (JObj ap)) (\<lambda>(v, c').
            Inr (setitem result ''additionalProperties'' v, c'))
      | _ \<Rightarrow> Inr (result, c))"

definition resolve_nested ::
  "(cache \<Rightarrow> json \<Rightarrow> (json \<times> cache) result) \<Rightarrow> cache \<Rightarrow> (string \<times> json) list
     \<Rightarrow> (json \<times> cache) result" where
  "resolve_nested rs c schema =
     thenE (resolve_properties rs c schema) (\<lambda>(r1, c1).
       thenE (resolve_items rs c1 r1) (\<lambda>(r2, c2).
         thenE (resolve_additional rs c2 r2) (\<lambda>(r3, c3). Inr (JObj r3, c3))))"

text \<open>
  The body of \<^verbatim>\<open>resolve_ref\<close>; \<open>rs\<close> is the call of \<^verbatim>\<open>resolve_schema\<close> one
  frame deeper. A reference that is a list or a dict cannot be looked up in the cache
  (it is unhashable); any other value that is not a string has no \<^verbatim>\<open>startswith\<close>.
\<close>

definition resolve_ref_body ::
  "(cache \<Rightarrow> json \<Rightarrow> (json \<times> cache) result) \<Rightarrow> json \<Rightarrow> cache \<Rightarrow> json
     \<Rightarrow> (json \<times> cache) result" where
  "resolve_ref_body rs doc c ref =
     (case ref of
        JStr r \<Rightarrow>
          (case c r of
             Some cached \<Rightarrow> Inr (cached, c)
           | None \<Rightarrow>
               if \<not> startswith r ''#/'' then Inr (JObj [], c)
               else (case walk doc (split CHR ''/'' (drop 2 r)) of
                       None \<Rightarrow> Inr (JObj [], c)
                     | Some result \<Rightarrow>
                         thenE (rs c result) (\<lambda>(resolved, c').
                           Inr (resolved, c'(r \<mapsto> resolved)))))
      | JArr _ \<Rightarrow> Inl TypeError
      | JObj _ \<Rightarrow> Inl TypeError
      | _ \<Rightarrow> Inl AttributeError)"

text \<open>
  The body of \<^verbatim>\<open>resolve_schema\<close>, its four branches in the order of the source;
  \<open>rr\<close> and \<open>rs\<close> are the calls of \<^verbatim>\<open>resolve_ref\<close> and \<^verbatim>\<open>resolve_schema\<close>
  one frame deeper.
\<close>

definition resolve_schema_body ::
  "(cache \<Rightarrow> json \<Rightarrow> (json \<times> cache) result) \<Rightarrow> (cache \<Rightarrow> json \<Rightarrow> (json \<times> cache) result)
     \<Rightarrow> cache \<Rightarrow> json \<Rightarrow> (json \<times> cache) result" where
  "resolve_schema_body rr rs c schema =
     (case schema of
        JObj kvs \<Rightarrow>
          if has_key kvs ''$ref'' then
            thenE (rr c (dget kvs ''$ref'' JNull)) (\<lambda>(resolved, c').
              thenE (py_dict resolved) (\<lambda>result.
                Inr (JObj (copy_other ''$ref'' result kvs), c')))
          else if has_key kvs ''allOf'' then
            thenE (py_iter (dget kvs ''allOf'' JNull)) (\<lambda>subs.
              thenE (merge_all rs c
                       [(''type'', JStr ''object''), (''properties'', JObj []),
                        (''required'', JArr [])] subs) (\<lambda>(merged, c').
                Inr (JObj (copy_other ''allOf'' merged kvs), c')))
          else if has_key kvs ''oneOf'' \<or> has_key kvs ''anyOf'' then
            thenE (py_iter (choose_options kvs)) (\<lambda>options.
              (case non_null_options options of
                 [] \<Rightarrow> Inr (JObj [(''type'', JStr ''null''), (''_nullable'', JBool True)], c)
               | first # _ \<Rightarrow>
                   thenE (rs c first) (\<lambda>(resolved, c').
                     thenE (py_dict resolved) (\<lambda>result.
                       Inr (JObj (setitem result ''_nullable'' (JBool True)), c')))))
          else resolve_nested rs c kvs
      | _ \<Rightarrow> Inr (schema, c))"

fun resolve_ref :: "nat \<Rightarrow> json \<Rightarrow> cache \<Rightarrow> json \<Rightarrow> (json \<times> cache) result"
and resolve_schema :: "nat \<Rightarrow> json \<Rightarrow> cache \<Rightarrow> json \<Rightarrow> (json \<times> cache) result" where
  "resolve_ref 0 doc c ref = Inl RecursionError"
| "resolve_ref (Suc n) doc c ref =
     resolve_ref_body (\<lambda>c' s. resolve_schema n doc c' s) doc c ref"
| "resolve_schema 0 doc c schema = Inl RecursionError"
| "resolve_schema (Suc n) doc c schema =
     resolve_schema_body (\<lambda>c' r. resolve_ref n doc c' r) (\<lambda>c' s. resolve_schema n doc c' s)
       c schema"

section \<open>Policy tables and report types\<close>

text \<open>The table of intentionally missing fields: (path, method, location, field) to reason.\<close>

definition DOCUMENTED_MISSING_FIELDS :: "((string \<times> string \<times> string \<times> string) \<times> string) list" where
  "DOCUMENTED_MISSING_FIELDS = [
    ((''/chat/completions'', ''POST'', ''request'', ''safety_identifier''),
      ''OpenAI internal safety feature''),
    ((''/chat/completions'', ''POST'', ''request'', ''prompt_cache_key''),
      ''OpenAI-specific prompt caching key''),
    ((''/chat/completions'', ''POST'', ''request'', ''service_tier''),
      ''OpenAI service tier selection (auto/default)''),
    ((''/chat/completions'', ''POST'', ''request'', ''prompt_cache_retention''),
      ''OpenAI-specific cache retention''),
    ((''/chat/completions'', ''POST'', ''request'', ''modalities''),
      ''OpenAI multimodal output selection''),
    ((''/chat/completions'', ''POST'', ''request'', ''verbosity''),
      ''OpenAI-specific verbosity control''),
    ((''/chat/completions'', ''POST'', ''request'', ''reasoning_effort''),
      ''OpenAI o1/o3 reasoning - Hadrian uses 'reasoning' object instead''),
    ((''/chat/completions'', ''POST'', ''request'', ''web_search_options''),
      ''OpenAI web search - Hadrian has separate web_search feature''),
    ((''/chat/completions'', ''POST'', ''request'', ''audio''),
      ''OpenAI audio output in chat''),
    ((''/chat/completions'', ''POST'', ''request'', ''store''),
      ''OpenAI stored completions feature''),
    ((''/chat/completions'', ''POST'', ''request'', ''n''),
      ''Multiple completions - not supported for cost/complexity reasons''),
    ((''/chat/completions'', ''POST'', ''request'', ''prediction''),
      ''OpenAI predicted outputs feature''),
    ((''/chat/completions'', ''POST'', ''request'', ''parallel_tool_calls''),
      ''OpenAI parallel tool execution hint''),
    ((''/chat/completions'', ''POST'', ''request'', ''function_call''),
      ''Deprecated - use tool_choice instead''),
    ((''/chat/completions'', ''POST'', ''request'', ''functions''),
      ''Deprecated - use tools instead''),
    ((''/chat/completions'', ''POST'', ''request'', ''include_obfuscation''),
      ''OpenAI internal obfuscation feature''),
    ((''/completions'', ''POST'', ''request'', ''include_usage''),
      ''Legacy completions - use chat/completions instead''),
    ((''/completions'', ''POST'', ''request'', ''include_obfuscation''),
      ''OpenAI internal obfuscation feature''),
    ((''/images/edits'', ''POST'', ''response'', ''output_tokens_details''),
      ''Detailed token breakdown not tracked''),
    ((''/images/generations'', ''POST'', ''response'', ''output_tokens_details''),
      ''Detailed token breakdown not tracked''),
    ((''/images/variations'', ''POST'', ''response'', ''output_tokens_details''),
      ''Detailed token breakdown not tracked''),
    ((''/models'', ''GET'', ''response'', ''object''),
      ''List response object type - TODO: add to schema''),
    ((''/responses'', ''POST'', ''request'', ''top_logprobs''),
      ''Log probabilities not implemented''),
    ((''/responses'', ''POST'', ''request'', ''prompt_cache_retention''),
      ''OpenAI-specific cache retention''),
    ((''/responses'', ''POST'', ''request'', ''max_tool_calls''),
      ''Tool call limits not implemented''),
    ((''/responses'', ''POST'', ''request'', ''stream_options''),
      ''Stream options not implemented''),
    ((''/responses'', ''POST'', ''request'', ''conversation''),
      ''OpenAI conversation context feature''),
    ((''/responses'', ''POST'', ''request'', ''format''),
      ''OpenAI-specific format parameter''),
    ((''/responses'', ''POST'', ''request'', ''verbosity''),
      ''OpenAI-specific verbosity control''),
    ((''/responses'', ''POST'', ''request'', ''effort''),
      ''OpenAI-specific effort parameter''),
    ((''/responses'', ''POST'', ''request'', ''summary''),
      ''OpenAI-specific summary parameter''),
    ((''/responses'', ''POST'', ''request'', ''generate_summary''),
      ''OpenAI-specific summary generation''),
    ((''/responses'', ''POST'', ''request'', ''id''),
      ''OpenAI-specific ID parameter''),
    ((''/responses'', ''POST'', ''request'', ''version''),
      ''OpenAI-specific version parameter''),
    ((''/responses'', ''POST'', ''request'', ''variables''),
      ''OpenAI-specific variables parameter''),
    ((''/responses'', ''POST'', ''request'', ''context_management''),
      ''OpenAI-specific context management''),
    ((''/vector_stores/{vector_store_id}/files'', ''POST'', ''request'', ''attributes''),
      ''File attributes not implemented''),
    ((''/vector_stores/{vector_store_id}/files'', ''POST'', ''response'', ''static''),
      ''Static file info not implemented''),
    ((''/vector_stores/{vector_store_id}/files/{file_id}'', ''GET'', ''response'', ''static''),
      ''Static file info not implemented''),
    ((''/vector_stores/{vector_store_id}/search'', ''POST'', ''request'', ''rewrite_query''),
      ''Query rewriting not implemented''),
    ((''/vector_stores/{vector_store_id}/search'', ''POST'', ''response'', ''search_query''),
      ''Rewritten query not returned''),
    ((''/vector_stores/{vector_store_id}/search'', ''POST'', ''response'', ''has_more''),
      ''Pagination not implemented for search''),
    ((''/vector_stores/{vector_store_id}/search'', ''POST'', ''response'', ''next_page''),
      ''Pagination not implemented for search'')]"

definition documented :: "string \<times> string \<times> string \<times> string \<Rightarrow> bool" where
  "documented key = (map_of DOCUMENTED_MISSING_FIELDS key \<noteq> None)"

definition EXTENSION_MARKER :: string where
  "EXTENSION_MARKER = ''**Hadrian Extension:**''"

datatype DiffType = MISSING_IN_HADRIAN | HADRIAN_EXTENSION | TYPE_MISMATCH | REQUIRED_MISMATCH

text \<open>
  \<^verbatim>\<open>SchemaDiff\<close>: the two values are strings, or whatever a parameter's schema has as
  its \<^verbatim>\<open>type\<close>; \<open>JNull\<close> is the default \<^verbatim>\<open>None\<close>.
\<close>

record SchemaDiff =
  sd_path :: string
  sd_field :: string
  diff_type :: DiffType
  openai_value :: json
  hadrian_value :: json
  sd_description :: string

record EndpointDiff =
  ed_path :: string
  ed_method :: string
  request_diffs :: "SchemaDiff list"
  response_diffs :: "SchemaDiff list"
  param_diffs :: "SchemaDiff list"
  missing_in_hadrian :: bool
  hadrian_extension :: bool

record Violation =
  violation_type :: string
  v_path :: string
  v_method :: string
  v_field :: string
  v_location :: string
  v_message :: string

section \<open>Type strings\<close>

text \<open>
  \<^verbatim>\<open>str(x)\<close> of a string is the string. Its value on anything else (a number, a list,
  a dict) is Python's own formatting, which the checker takes as given: \<open>str\<close> below.
\<close>

definition py_str :: "(json \<Rightarrow> string) \<Rightarrow> json \<Rightarrow> string" where
  "py_str str v = (case v of JStr s \<Rightarrow> s | _ \<Rightarrow> str v)"

fun join :: "string \<Rightarrow> string list \<Rightarrow> string" where
  "join sep [] = []"
| "join sep [x] = x"
| "join sep (x # y # ys) = x @ sep @ join sep (y # ys)"

fun is_str :: "json \<Rightarrow> bool" where
  "is_str (JStr s) = True"
| "is_str _ = False"

fun str_of :: "json \<Rightarrow> string" where
  "str_of (JStr s) = s"
| "str_of _ = []"

text \<open>
  The OpenAPI 3.1 list form of \<^verbatim>\<open>type\<close>; \<^verbatim>\<open>"|".join\<close> accepts strings only.
\<close>

definition declared_type :: "json \<Rightarrow> json result" where
  "declared_type schema_type =
     (case schema_type of
        JArr ts \<Rightarrow>
          (let types = filter (\<lambda>t. t \<noteq> JStr ''null'') ts in
           if length types = 1 then Inr (hd types)
           else if list_all is_str types then Inr (JStr (join ''|'' (map str_of types)))
           else Inl TypeError)
      | _ \<Rightarrow> Inr schema_type)"

lemma size_map_of: "map_of kvs k = Some v \<Longrightarrow> size v < size (JObj kvs)"
  by (induction kvs) (auto split: if_splits)

text \<open>
  \<^verbatim>\<open>_get_type_string\<close>. Where \<^verbatim>\<open>items\<close> is absent the source classifies the
  default \<^verbatim>\<open>{}\<close>, which has no type, no enum and no reference: \<^verbatim>\<open>unknown\<close>.
\<close>

function get_type_string :: "(json \<Rightarrow> string) \<Rightarrow> json \<Rightarrow> string result" where
  "get_type_string str schema =
     (case schema of
        JObj kvs \<Rightarrow>
          (case declared_type (dget kvs ''type'' JNull) of
             Inl e \<Rightarrow> Inl e
           | Inr schema_type \<Rightarrow>
               if schema_type = JStr ''array'' then
                 (case map_of kvs ''items'' of
                    None \<Rightarrow> Inr ''array<unknown>''
                  | Some items \<Rightarrow>
                      (case get_type_string str items of
                         Inl e \<Rightarrow> Inl e
                       | Inr item_type \<Rightarrow> Inr (''array<'' @ item_type @ ''>'')))
               else if schema_type = JStr ''object'' then
                 (case map_of kvs ''additionalProperties'' of
                    None \<Rightarrow> Inr ''object''
                  | Some ap \<Rightarrow>
                      (case get_type_string str ap of
                         Inl e \<Rightarrow> Inl e
                       | Inr value_type \<Rightarrow> Inr (''map<string, '' @ value_type @ ''>'')))
               else if truthy schema_type then Inr (py_str str schema_type)
               else if has_key kvs ''enum'' then Inr ''enum''
               else if has_key kvs ''$ref'' then
                 (case dget kvs ''$ref'' JNull of
                    JStr ref \<Rightarrow> Inr (last (split CHR ''/'' ref))
                  | _ \<Rightarrow> Inl AttributeError)
               else Inr ''unknown'')
      | _ \<Rightarrow> Inr (py_str str schema))"
  by pat_completeness auto
termination
  by (relation "measure (\<lambda>(str, schema). size schema)") (auto dest: size_map_of)

declare get_type_string.simps [simp del]

text \<open>\<^verbatim>\<open>_types_compatible\<close>.\<close>

definition types_compatible :: "string \<Rightarrow> string \<Rightarrow> bool" where
  "types_compatible openai_type hadrian_type =
     (if openai_type = hadrian_type then True
      else if {openai_type, hadrian_type} \<subseteq> {''integer'', ''number''} then True
      else if openai_type = ''number'' \<and> hadrian_type = ''double'' then True
      else if hadrian_type = ''number'' \<and> openai_type = ''double'' then True
      else False)"

section \<open>Comparing two resolved schemas\<close>

text \<open>\<^verbatim>\<open>set(schema.get("required", []))\<close>: the value is iterated and its members hashed.\<close>

definition required_set :: "(string \<times> json) list \<Rightarrow> json list result" where
  "required_set schema =
     thenE (py_iter (dget schema ''required'' (JArr []))) (\<lambda>xs.
       if list_all hashable xs then Inr xs else Inl TypeError)"

definition missing_diff :: "string \<Rightarrow> string \<Rightarrow> string \<Rightarrow> bool \<Rightarrow> SchemaDiff" where
  "missing_diff context field_name field_type is_required =
     \<lparr>sd_path = context, sd_field = field_name, diff_type = MISSING_IN_HADRIAN,
      openai_value = JStr field_type, hadrian_value = JNull,
      sd_description = ''Field '' @ [CHR 0x27] @ field_name @ [CHR 0x27] @ '' ('' @ field_type
        @ '') missing in Hadrian'' @ (if is_required then '' [REQUIRED]'' else [])\<rparr>"

definition undocumented_violation :: "string \<Rightarrow> string \<Rightarrow> string \<Rightarrow> string \<Rightarrow> Violation" where
  "undocumented_violation endpoint_path method loc field_name =
     \<lparr>violation_type = ''undocumented_missing'', v_path = endpoint_path, v_method = method,
      v_field = field_name, v_location = loc,
      v_message = ''Field '' @ [CHR 0x27] @ field_name @ [CHR 0x27]
        @ '' is missing but not documented in DOCUMENTED_MISSING_FIELDS''\<rparr>"

definition extension_diff :: "string \<Rightarrow> string \<Rightarrow> string \<Rightarrow> SchemaDiff" where
  "extension_diff context field_name field_type =
     \<lparr>sd_path = context, sd_field = field_name, diff_type = HADRIAN_EXTENSION,
      openai_value = JNull, hadrian_value = JStr field_type,
      sd_description = ''Field '' @ [CHR 0x27] @ field_name @ [CHR 0x27] @ '' ('' @ field_type
        @ '') is a Hadrian extension''\<rparr>"

definition unmarked_violation :: "string \<Rightarrow> string \<Rightarrow> string \<Rightarrow> string \<Rightarrow> Violation" where
  "unmarked_violation endpoint_path method loc field_name =
     \<lparr>violation_type = ''unmarked_extension'', v_path = endpoint_path, v_method = method,
      v_field = field_name, v_location = loc,
      v_message = ''Field '' @ [CHR 0x27] @ field_name @ [CHR 0x27]
        @ '' is a Hadrian extension but missing '' @ [CHR 0x27] @ EXTENSION_MARKER @ [CHR 0x27]
        @ '' in description''\<rparr>"

definition type_mismatch_diff :: "string \<Rightarrow> string \<Rightarrow> string \<Rightarrow> string \<Rightarrow> SchemaDiff" where
  "type_mismatch_diff context field_name openai_type hadrian_type =
     \<lparr>sd_path = context, sd_field = field_name, diff_type = TYPE_MISMATCH,
      openai_value = JStr openai_type, hadrian_value = JStr hadrian_type,
      sd_description = ''Type mismatch for '' @ [CHR 0x27] @ field_name @ [CHR 0x27]
        @ '': OpenAI='' @ openai_type @ '', Hadrian='' @ hadrian_type\<rparr>"

definition required_mismatch_diff :: "string \<Rightarrow> string \<Rightarrow> SchemaDiff" where
  "required_mismatch_diff context field_name =
     \<lparr>sd_path = context, sd_field = field_name, diff_type = REQUIRED_MISMATCH,
      openai_value = JStr ''required'', hadrian_value = JStr ''optional'',
      sd_description = ''Field '' @ [CHR 0x27] @ field_name @ [CHR 0x27]
        @ '' is required in OpenAI but optional in Hadrian''\<rparr>"

text \<open>
  The first loop of \<^verbatim>\<open>_compare_schemas\<close>: fields in OpenAI but not Hadrian. The
  Hadrian \<^verbatim>\<open>properties\<close> value is whatever the schema holds, so the membership test
  is Python's \<^verbatim>\<open>in\<close> on any value.
\<close>

fun missing_loop ::
  "(json \<Rightarrow> string) \<Rightarrow> json \<Rightarrow> json list \<Rightarrow> string \<Rightarrow> string \<Rightarrow> string \<Rightarrow> string
     \<Rightarrow> (string \<times> json) list \<Rightarrow> (SchemaDiff list \<times> Violation list) result" where
  "missing_loop str hadrian_props openai_required context endpoint_path method loc [] =
     Inr ([], [])"
| "missing_loop str hadrian_props openai_required context endpoint_path method loc
     ((field_name, openai_field) # rest) =
     (case py_in field_name hadrian_props of
        Inl e \<Rightarrow> Inl e
      | Inr present \<Rightarrow>
          if present then
            missing_loop str hadrian_props openai_required context endpoint_path method loc rest
          else
            (case get_type_string str openai_field of
               Inl e \<Rightarrow> Inl e
             | Inr field_type \<Rightarrow>
                 (case missing_loop str hadrian_props openai_required context endpoint_path
                         method loc rest of
                    Inl e \<Rightarrow> Inl e
                  | Inr (diffs, violations) \<Rightarrow>
                      Inr (missing_diff context field_name field_type
                             (JStr field_name \<in> set openai_required) # diffs,
                           (if \<not> documented (endpoint_path, method, loc, field_name)
                            then [undocumented_violation endpoint_path method loc field_name]
                            else []) @ violations))))"

text \<open>
  \<^verbatim>\<open>EXTENSION_MARKER not in description\<close>, where the description is whatever the
  field holds (the default is the empty string).
\<close>

definition marked :: "(string \<times> json) list \<Rightarrow> bool result" where
  "marked hadrian_field = py_in EXTENSION_MARKER (dget hadrian_field ''description'' (JStr []))"

text \<open>The second loop: fields in Hadrian but not OpenAI.\<close>

fun extension_loop ::
  "(json \<Rightarrow> string) \<Rightarrow> (string \<times> json) list \<Rightarrow> string \<Rightarrow> string \<Rightarrow> string \<Rightarrow> string
     \<Rightarrow> (string \<times> json) list \<Rightarrow> (SchemaDiff list \<times> Violation list) result" where
  "extension_loop str openai_props context endpoint_path method loc [] = Inr ([], [])"
| "extension_loop str openai_props context endpoint_path method loc
     ((field_name, hadrian_field) # rest) =
     (if has_key openai_props field_name then
        extension_loop str openai_props context endpoint_path method loc rest
      else
        (case get_type_string str hadrian_field of
           Inl e \<Rightarrow> Inl e
         | Inr field_type \<Rightarrow>
             (case hadrian_field of
                JObj hf \<Rightarrow>
                  (case marked hf of
                     Inl e \<Rightarrow> Inl e
                   | Inr has_marker \<Rightarrow>
                       (case extension_loop str openai_props context endpoint_path method loc
                               rest of
                          Inl e \<Rightarrow> Inl e
                        | Inr (diffs, violations) \<Rightarrow>
                            Inr (extension_diff context field_name field_type # diffs,
                                 (if \<not> has_marker
                                  then [unmarked_violation endpoint_path method loc field_name]
                                  else []) @ violations)))
              | _ \<Rightarrow> Inl AttributeError)))"

lemma size_dget: "dget kvs k (JObj []) = JObj ps \<Longrightarrow> size (JObj ps) \<le> size (JObj kvs)"
  by (auto simp: dget_def split: option.splits dest: size_map_of)

text \<open>
  \<^verbatim>\<open>_compare_schemas\<close> with its third loop, over the fields both sides have. The
  source iterates over the intersection of two key sets, whose order Python leaves open;
  the loop here follows the order of the OpenAI properties.
\<close>

function compare_schemas ::
  "(json \<Rightarrow> string) \<Rightarrow> json \<Rightarrow> json \<Rightarrow> string \<Rightarrow> string \<Rightarrow> string \<Rightarrow> string
     \<Rightarrow> (SchemaDiff list \<times> Violation list) result"
and common_loop ::
  "(json \<Rightarrow> string) \<Rightarrow> (string \<times> json) list \<Rightarrow> json list \<Rightarrow> json list \<Rightarrow> string \<Rightarrow> string
     \<Rightarrow> string \<Rightarrow> string \<Rightarrow> (string \<times> json) list
     \<Rightarrow> (SchemaDiff list \<times> Violation list) result" where
  "compare_schemas str openai_schema hadrian_schema context endpoint_path method loc =
     (case openai_schema of
        JObj os \<Rightarrow>
          (case hadrian_schema of
             JObj hs \<Rightarrow>
               (case required_set os of
                  Inl e \<Rightarrow> Inl e
                | Inr openai_required \<Rightarrow>
               (case required_set hs of
                  Inl e \<Rightarrow> Inl e
                | Inr hadrian_required \<Rightarrow>
               (case dget os ''properties'' (JObj []) of
                  JObj openai_props \<Rightarrow>
                    (case missing_loop str (dget hs ''properties'' (JObj [])) openai_required
                            context endpoint_path method loc openai_props of
                       Inl e \<Rightarrow> Inl e
                     | Inr (d1, v1) \<Rightarrow>
                    (case dget hs ''properties'' (JObj []) of
                       JObj hadrian_props \<Rightarrow>
                         (case extension_loop str openai_props context endpoint_path method loc
                                 hadrian_props of
                            Inl e \<Rightarrow> Inl e
                          | Inr (d2, v2) \<Rightarrow>
                         (case common_loop str hadrian_props openai_required hadrian_required
                                 context endpoint_path method loc openai_props of
                            Inl e \<Rightarrow> Inl e
                          | Inr (d3, v3) \<Rightarrow> Inr (d1 @ d2 @ d3, v1 @ v2 @ v3)))
                     | _ \<Rightarrow> Inl AttributeError))
                | _ \<Rightarrow> Inl AttributeError)))
           | _ \<Rightarrow> Inl AttributeError)
      | _ \<Rightarrow> Inl AttributeError)"
| "common_loop str hadrian_props openai_required hadrian_required context endpoint_path method
     loc [] = Inr ([], [])"
| "common_loop str hadrian_props openai_required hadrian_required context endpoint_path method
     loc ((field_name, openai_field) # rest) =
     (if \<not> has_key hadrian_props field_name then
        common_loop str hadrian_props openai_required hadrian_required context endpoint_path
          method loc rest
      else
        (case get_type_string str openai_field of
           Inl e \<Rightarrow> Inl e
         | Inr openai_type \<Rightarrow>
        (case get_type_string str (dget hadrian_props field_name JNull) of
           Inl e \<Rightarrow> Inl e
         | Inr hadrian_type \<Rightarrow>
        (case (case openai_field of
                 JObj ofld \<Rightarrow>
                   if dget ofld ''type'' JNull = JStr ''object'' then
                     (case dget hadrian_props field_name JNull of
                        JObj hfld \<Rightarrow>
                          if dget hfld ''type'' JNull = JStr ''object'' then
                            compare_schemas str openai_field (dget hadrian_props field_name JNull)
                              (context @ ''.'' @ field_name) endpoint_path method loc
                          else Inr ([], [])
                      | _ \<Rightarrow> Inl AttributeError)
                   else Inr ([], [])
               | _ \<Rightarrow> Inl AttributeError) of
           Inl e \<Rightarrow> Inl e
         | Inr (nested_diffs, nested_violations) \<Rightarrow>
        (case common_loop str hadrian_props openai_required hadrian_required context
                endpoint_path method loc rest of
           Inl e \<Rightarrow> Inl e
         | Inr (diffs, violations) \<Rightarrow>
             Inr ((if \<not> types_compatible openai_type hadrian_type
                   then [type_mismatch_diff context field_name openai_type hadrian_type]
                   else [])
                  @ (if JStr field_name \<in> set openai_required
                        \<and> JStr field_name \<notin> set hadrian_required
                     then [required_mismatch_diff context field_name] else [])
                  @ nested_diffs @ diffs,
                  nested_violations @ violations))))))"
  by pat_completeness auto
termination
  by (relation "measure (\<lambda>x. case x of
          Inl (str, os, hs, rest) \<Rightarrow> 2 * size os + 1
        | Inr (str, hp, oreq, hreq, ctx, ep, m, l, props) \<Rightarrow> 2 * size (JObj props))")
     (auto dest: size_dget)

declare compare_schemas.simps [simp del]

section \<open>Comparing one endpoint\<close>

text \<open>A chain of \<^verbatim>\<open>.get(key, {})\<close> calls.\<close>

fun get_chain :: "json \<Rightarrow> string list \<Rightarrow> json result" where
  "get_chain v [] = Inr v"
| "get_chain v (k # ks) = thenE (get_or v k (JObj [])) (\<lambda>v'. get_chain v' ks)"

text \<open>\<^verbatim>\<open>method.upper()\<close> on ASCII text.\<close>

definition upper :: "string \<Rightarrow> string" where
  "upper s = map (\<lambda>c. case map_of (zip ''abcdefghijklmnopqrstuvwxyz''
                                        ''ABCDEFGHIJKLMNOPQRSTUVWXYZ'') c of
                         Some u \<Rightarrow> u | None \<Rightarrow> c) s"

text \<open>
  The two resolvers of the checker are their caches, \<open>co\<close> for the OpenAI document and
  \<open>ch\<close> for the Hadrian one; \<open>limit\<close> is the number of frames left for a resolver call.
  A body is compared when both sides have a non-empty schema.
\<close>

definition compare_body ::
  "(json \<Rightarrow> string) \<Rightarrow> nat \<Rightarrow> json \<Rightarrow> json \<Rightarrow> cache \<Rightarrow> cache \<Rightarrow> json \<Rightarrow> json \<Rightarrow> string
     \<Rightarrow> string \<Rightarrow> string \<Rightarrow> string
     \<Rightarrow> ((SchemaDiff list \<times> Violation list) \<times> cache \<times> cache) result" where
  "compare_body str limit openai_spec hadrian_spec co ch openai_body hadrian_body context
     endpoint_path method_upper loc =
     (if truthy openai_body \<and> truthy hadrian_body then
        thenE (resolve_schema limit openai_spec co openai_body) (\<lambda>(resolved_openai, co').
          thenE (resolve_schema limit hadrian_spec ch hadrian_body) (\<lambda>(resolved_hadrian, ch').
            thenE (compare_schemas str resolved_openai resolved_hadrian context endpoint_path
                     method_upper loc) (\<lambda>dv. Inr (dv, co', ch'))))
      else Inr (([], []), co, ch))"

text \<open>
  \<^verbatim>\<open>{p.get("name"): p for p in op.get("parameters", []) if p.get("in") == "query"}\<close>.
  A list or a dict cannot be a key; a name that is neither that nor a string is outside
  the model.
\<close>

fun query_params :: "json list \<Rightarrow> (string \<times> json) list result" where
  "query_params [] = Inr []"
| "query_params (p # ps) =
     thenE (get_or p ''in'' JNull) (\<lambda>i.
       if i = JStr ''query'' then
         thenE (get_or p ''name'' JNull) (\<lambda>name.
           (case name of
              JStr n \<Rightarrow> thenE (query_params ps) (\<lambda>d. Inr ((n, p) # d))
            | JArr _ \<Rightarrow> Inl TypeError
            | JObj _ \<Rightarrow> Inl TypeError
            | _ \<Rightarrow> Inl OutOfModel))
       else query_params ps)"

definition params_dict :: "json \<Rightarrow> (string \<times> json) list result" where
  "params_dict op =
     thenE (get_or op ''parameters'' (JArr [])) (\<lambda>ps.
       thenE (py_iter ps) (\<lambda>xs.
         thenE (query_params xs) (\<lambda>kvs.
           Inr (foldl (\<lambda>d (k, v). setitem d k v) [] kvs))))"

definition missing_param_diff :: "string \<Rightarrow> string \<Rightarrow> json \<Rightarrow> SchemaDiff" where
  "missing_param_diff pth param_name ty =
     \<lparr>sd_path = pth @ '' params'', sd_field = param_name, diff_type = MISSING_IN_HADRIAN,
      openai_value = ty, hadrian_value = JNull,
      sd_description = ''Query parameter '' @ [CHR 0x27] @ param_name @ [CHR 0x27]
        @ '' missing in Hadrian''\<rparr>"

definition undocumented_param_violation :: "string \<Rightarrow> string \<Rightarrow> string \<Rightarrow> Violation" where
  "undocumented_param_violation pth method_upper param_name =
     \<lparr>violation_type = ''undocumented_missing'', v_path = pth, v_method = method_upper,
      v_field = param_name, v_location = ''param'',
      v_message = ''Query parameter '' @ [CHR 0x27] @ param_name @ [CHR 0x27]
        @ '' is missing but not documented in DOCUMENTED_MISSING_FIELDS''\<rparr>"

definition extension_param_diff :: "string \<Rightarrow> string \<Rightarrow> json \<Rightarrow> SchemaDiff" where
  "extension_param_diff pth param_name ty =
     \<lparr>sd_path = pth @ '' params'', sd_field = param_name, diff_type = HADRIAN_EXTENSION,
      openai_value = JNull, hadrian_value = ty,
      sd_description = ''Query parameter '' @ [CHR 0x27] @ param_name @ [CHR 0x27]
        @ '' is a Hadrian extension''\<rparr>"

definition unmarked_param_violation :: "string \<Rightarrow> string \<Rightarrow> string \<Rightarrow> Violation" where
  "unmarked_param_violation pth method_upper param_name =
     \<lparr>violation_type = ''unmarked_extension'', v_path = pth, v_method = method_upper,
      v_field = param_name, v_location = ''param'',
      v_message = ''Query parameter '' @ [CHR 0x27] @ param_name @ [CHR 0x27]
        @ '' is a Hadrian extension but missing '' @ [CHR 0x27] @ EXTENSION_MARKER @ [CHR 0x27]
        @ '' in description''\<rparr>"

text \<open>\<^verbatim>\<open>param.get("schema", {}).get("type")\<close>.\<close>

definition param_type :: "json \<Rightarrow> json result" where
  "param_type param = thenE (get_or param ''schema'' (JObj [])) (\<lambda>sch. get_or sch ''type'' JNull)"

fun missing_params ::
  "(string \<times> json) list \<Rightarrow> string \<Rightarrow> string \<Rightarrow> (string \<times> json) list
     \<Rightarrow> (SchemaDiff list \<times> Violation list) result" where
  "missing_params hadrian_params pth method_upper [] = Inr ([], [])"
| "missing_params hadrian_params pth method_upper ((param_name, openai_param) # rest) =
     (if has_key hadrian_params param_name then
        missing_params hadrian_params pth method_upper rest
      else
        thenE (param_type openai_param) (\<lambda>ty.
          thenE (missing_params hadrian_params pth method_upper rest) (\<lambda>(diffs, violations).
            Inr (missing_param_diff pth param_name ty # diffs,
                 (if \<not> documented (pth, method_upper, ''param'', param_name)
                  then [undocumented_param_violation pth method_upper param_name] else [])
                 @ violations))))"

fun extension_params ::
  "(string \<times> json) list \<Rightarrow> string \<Rightarrow> string \<Rightarrow> (string \<times> json) list
     \<Rightarrow> (SchemaDiff list \<times> Violation list) result" where
  "extension_params openai_params pth method_upper [] = Inr ([], [])"
| "extension_params openai_params pth method_upper ((param_name, hadrian_param) # rest) =
     (if has_key openai_params param_name then
        extension_params openai_params pth method_upper rest
      else
        thenE (param_type hadrian_param) (\<lambda>ty.
          thenE (thenE (get_or hadrian_param ''description'' (JStr []))
                   (py_in EXTENSION_MARKER)) (\<lambda>has_marker.
            thenE (extension_params openai_params pth method_upper rest) (\<lambda>(diffs, violations).
              Inr (extension_param_diff pth param_name ty # diffs,
                   (if \<not> has_marker
                    then [unmarked_param_violation pth method_upper param_name] else [])
                   @ violations)))))"

definition compare_params ::
  "string \<Rightarrow> string \<Rightarrow> json \<Rightarrow> json \<Rightarrow> (SchemaDiff list \<times> Violation list) result" where
  "compare_params pth method_upper openai_op hadrian_op =
     thenE (params_dict openai_op) (\<lambda>openai_params.
       thenE (params_dict hadrian_op) (\<lambda>hadrian_params.
         thenE (missing_params hadrian_params pth method_upper openai_params) (\<lambda>(d1, v1).
           thenE (extension_params openai_params pth method_upper hadrian_params) (\<lambda>(d2, v2).
             Inr (d1 @ d2, v1 @ v2)))))"

text \<open>\<^verbatim>\<open>_compare_endpoint\<close>: request body, 200 response body, query parameters.\<close>

definition request_schema :: "json \<Rightarrow> json result" where
  "request_schema op = get_chain op [''requestBody'', ''content'', ''application/json'', ''schema'']"

definition response_schema :: "json \<Rightarrow> json result" where
  "response_schema op =
     get_chain op [''responses'', ''200'', ''content'', ''application/json'', ''schema'']"

definition compare_endpoint ::
  "(json \<Rightarrow> string) \<Rightarrow> nat \<Rightarrow> json \<Rightarrow> json \<Rightarrow> cache \<Rightarrow> cache \<Rightarrow> string \<Rightarrow> string \<Rightarrow> json
     \<Rightarrow> json \<Rightarrow> ((EndpointDiff \<times> Violation list) \<times> cache \<times> cache) result" where
  "compare_endpoint str limit openai_spec hadrian_spec co ch pth method openai_op hadrian_op =
     thenE (request_schema openai_op) (\<lambda>openai_body.
     thenE (request_schema hadrian_op) (\<lambda>hadrian_body.
     thenE (compare_body str limit openai_spec hadrian_spec co ch openai_body hadrian_body
              (pth @ '' request'') pth (upper method) ''request'')
       (\<lambda>((req_diffs, req_violations), co1, ch1).
     thenE (response_schema openai_op) (\<lambda>openai_resp.
     thenE (response_schema hadrian_op) (\<lambda>hadrian_resp.
     thenE (compare_body str limit openai_spec hadrian_spec co1 ch1 openai_resp hadrian_resp
              (pth @ '' response'') pth (upper method) ''response'')
       (\<lambda>((resp_diffs, resp_violations), co2, ch2).
     thenE (compare_params pth (upper method) openai_op hadrian_op)
       (\<lambda>(par_diffs, par_violations).
         Inr ((\<lparr>ed_path = pth, ed_method = upper method, request_diffs = req_diffs,
                 response_diffs = resp_diffs, param_diffs = par_diffs,
                 missing_in_hadrian = False, hadrian_extension = False\<rparr>,
               req_violations @ resp_violations @ par_violations), co2, ch2))))))))"

section \<open>ConformanceChecker: scope tables and the full check\<close>

definition PATH_MAPPING :: "(string \<times> string) list" where
  "PATH_MAPPING = [
    (''/chat/completions'', ''/api/v1/chat/completions''),
    (''/completions'', ''/api/v1/completions''),
    (''/embeddings'', ''/api/v1/embeddings''),
    (''/models'', ''/api/v1/models''),
    (''/models/{model}'', ''/api/v1/models/{model}''),
    (''/files'', ''/api/v1/files''),
    (''/files/{file_id}'', ''/api/v1/files/{file_id}''),
    (''/files/{file_id}/content'', ''/api/v1/files/{file_id}/content''),
    (''/audio/speech'', ''/api/v1/audio/speech''),
    (''/audio/transcriptions'', ''/api/v1/audio/transcriptions''),
    (''/audio/translations'', ''/api/v1/audio/translations''),
    (''/images/generations'', ''/api/v1/images/generations''),
    (''/images/edits'', ''/api/v1/images/edits''),
    (''/images/variations'', ''/api/v1/images/variations''),
    (''/moderations'', ''/api/v1/moderations''),
    (''/vector_stores'', ''/api/v1/vector_stores''),
    (''/vector_stores/{vector_store_id}'', ''/api/v1/vector_stores/{vector_store_id}''),
    (''/vector_stores/{vector_store_id}/files'', ''/api/v1/vector_stores/{vector_store_id}/files''),
    (''/vector_stores/{vector_store_id}/files/{file_id}'', ''/api/v1/vector_stores/{vector_store_id}/files/{file_id}''),
    (''/vector_stores/{vector_store_id}/search'', ''/api/v1/vector_stores/{vector_store_id}/search''),
    (''/responses'', ''/api/v1/responses'')]"

definition OUT_OF_SCOPE_PREFIXES :: "string list" where
  "OUT_OF_SCOPE_PREFIXES = [
    ''/assistants'',
    ''/threads'',
    ''/fine_tuning'',
    ''/batches'',
    ''/organization'',
    ''/realtime'',
    ''/evals'',
    ''/uploads'',
    ''/audit'',
    ''/invites'',
    ''/users'',
    ''/projects'',
    ''/containers'',
    ''/conversations'',
    ''/videos'',
    ''/chatkit'',
    ''/audio/voice_consents'',
    ''/audio/voices'',
    ''/skills'']"

definition OUT_OF_SCOPE_PATHS :: "string list" where
  "OUT_OF_SCOPE_PATHS = [
    ''/chat/completions/{completion_id}'',
    ''/chat/completions/{completion_id}/messages'',
    ''/models/{model}'',
    ''/models/{model}/permissions'',
    ''/moderations'',
    ''/vector_stores/{vector_store_id}/file_batches'',
    ''/vector_stores/{vector_store_id}/file_batches/{batch_id}'',
    ''/vector_stores/{vector_store_id}/file_batches/{batch_id}/cancel'',
    ''/vector_stores/{vector_store_id}/file_batches/{batch_id}/files'',
    ''/vector_stores/{vector_store_id}/files/{file_id}/content'',
    ''/responses/input_tokens'',
    ''/responses/compact'',
    ''/responses/{response_id}'',
    ''/responses/{response_id}/input_items'',
    ''/responses/{response_id}/cancel'']"

definition OUT_OF_SCOPE_METHODS :: "(string \<times> string list) list" where
  "OUT_OF_SCOPE_METHODS = [
    (''/chat/completions'', [''get'']),
    (''/vector_stores/{vector_store_id}/files/{file_id}'', [''post''])]"

record ConformanceReport =
  openai_version :: json
  hadrian_version :: json
  total_openai_endpoints :: nat
  total_hadrian_endpoints :: nat
  endpoints_checked :: nat
  fully_conformant :: nat
  endpoints_with_diffs :: "EndpointDiff list"
  out_of_scope_endpoints :: "string list"
  hadrian_only_endpoints :: "string list"
  violations :: "Violation list"

text \<open>\<^verbatim>\<open>_path_matches_pattern\<close>, \<^verbatim>\<open>_is_out_of_scope\<close>, \<^verbatim>\<open>_is_method_out_of_scope\<close>.\<close>

definition path_matches_pattern :: "string \<Rightarrow> string \<Rightarrow> bool" where
  "path_matches_pattern pth pattern =
     (let path_parts = split CHR ''/'' pth; pattern_parts = split CHR ''/'' pattern in
      if length path_parts \<noteq> length pattern_parts then False
      else list_all (\<lambda>(path_part, pattern_part).
             (startswith pattern_part ''{'' \<and> endswith pattern_part ''}'')
             \<or> path_part = pattern_part) (zip path_parts pattern_parts))"

definition is_out_of_scope :: "string \<Rightarrow> bool" where
  "is_out_of_scope pth =
     (if pth \<in> set OUT_OF_SCOPE_PATHS then True
      else if list_ex (\<lambda>out_of_scope_path. path_matches_pattern pth out_of_scope_path)
                OUT_OF_SCOPE_PATHS then True
      else if list_ex (\<lambda>prefix. startswith pth prefix) OUT_OF_SCOPE_PREFIXES then True
      else False)"

definition is_method_out_of_scope :: "string \<Rightarrow> string \<Rightarrow> bool" where
  "is_method_out_of_scope pth method =
     (case map_of OUT_OF_SCOPE_METHODS pth of
        Some methods \<Rightarrow> method \<in> set methods
      | None \<Rightarrow>
          list_ex (\<lambda>(pattern, methods). path_matches_pattern pth pattern \<and> method \<in> set methods)
            OUT_OF_SCOPE_METHODS)"

text \<open>\<^verbatim>\<open>s.replace(old, new)\<close>: every occurrence, left to right, without overlap.\<close>

function replace :: "string \<Rightarrow> string \<Rightarrow> string \<Rightarrow> string" where
  "replace old new s =
     (if old = [] then new @ concat (map (\<lambda>c. c # new) s)
      else if s = [] then []
      else if startswith s old then new @ replace old new (drop (length old) s)
      else hd s # replace old new (tl s))"
  by pat_completeness auto
termination
  by (relation "measure (\<lambda>(old, new, s). length s)") auto

declare replace.simps [simp del]

text \<open>\<^verbatim>\<open>len(x)\<close>.\<close>

fun py_len :: "json \<Rightarrow> nat result" where
  "py_len (JObj kvs) = Inr (length kvs)"
| "py_len (JArr xs) = Inr (length xs)"
| "py_len (JStr s) = Inr (length s)"
| "py_len _ = Inl TypeError"

text \<open>
  The state of the main loop of \<^verbatim>\<open>check_conformance\<close>: the report built so far and
  the two resolver caches.
\<close>

type_synonym check_state = "ConformanceReport \<times> cache \<times> cache"

definition missing_endpoint_diff :: "string \<Rightarrow> string \<Rightarrow> EndpointDiff" where
  "missing_endpoint_diff openai_path method =
     \<lparr>ed_path = openai_path, ed_method = upper method, request_diffs = [], response_diffs = [],
      param_diffs = [], missing_in_hadrian = True, hadrian_extension = False\<rparr>"

definition missing_endpoint_violation :: "string \<Rightarrow> string \<Rightarrow> Violation" where
  "missing_endpoint_violation openai_path method =
     \<lparr>violation_type = ''missing_endpoint'', v_path = openai_path, v_method = upper method,
      v_field = [], v_location = [],
      v_message = ''Endpoint '' @ upper method @ '' '' @ openai_path
        @ '' is not implemented in Hadrian''\<rparr>"

text \<open>One round of the loop over the five methods, for a method that is checked.\<close>

definition check_method ::
  "(json \<Rightarrow> string) \<Rightarrow> nat \<Rightarrow> json \<Rightarrow> json \<Rightarrow> string \<Rightarrow> json \<Rightarrow> json \<Rightarrow> string
     \<Rightarrow> check_state \<Rightarrow> check_state result" where
  "check_method str limit openai_spec hadrian_spec openai_path openai_methods hadrian_methods
     method st =
     (case st of (report, co, ch) \<Rightarrow>
        let report1 = report\<lparr>endpoints_checked := endpoints_checked report + 1\<rparr> in
        thenE (py_in method hadrian_methods) (\<lambda>present.
          if \<not> present then
            Inr (report1\<lparr>endpoints_with_diffs :=
                           endpoints_with_diffs report1 @ [missing_endpoint_diff openai_path method],
                         violations :=
                           violations report1 @ [missing_endpoint_violation openai_path method]\<rparr>,
                 co, ch)
          else
            thenE (subscript openai_methods method) (\<lambda>openai_op.
            thenE (subscript hadrian_methods method) (\<lambda>hadrian_op.
            thenE (compare_endpoint str limit openai_spec hadrian_spec co ch openai_path method
                     openai_op hadrian_op) (\<lambda>((endpoint_diff, vs), co', ch').
              let report2 = report1\<lparr>violations := violations report1 @ vs\<rparr> in
              if request_diffs endpoint_diff \<noteq> [] \<or> response_diffs endpoint_diff \<noteq> []
                 \<or> param_diffs endpoint_diff \<noteq> []
              then Inr (report2\<lparr>endpoints_with_diffs :=
                                  endpoints_with_diffs report2 @ [endpoint_diff]\<rparr>, co', ch')
              else Inr (report2\<lparr>fully_conformant := fully_conformant report2 + 1\<rparr>,
                        co', ch'))))))"

fun method_loop ::
  "(json \<Rightarrow> string) \<Rightarrow> nat \<Rightarrow> json \<Rightarrow> json \<Rightarrow> string \<Rightarrow> json \<Rightarrow> json \<Rightarrow> string list
     \<Rightarrow> check_state \<Rightarrow> check_state result" where
  "method_loop str limit openai_spec hadrian_spec openai_path openai_methods hadrian_methods
     [] st = Inr st"
| "method_loop str limit openai_spec hadrian_spec openai_path openai_methods hadrian_methods
     (method # methods) st =
     (case py_in method openai_methods of
        Inl e \<Rightarrow> Inl e
      | Inr present \<Rightarrow>
          if \<not> present then
            method_loop str limit openai_spec hadrian_spec openai_path openai_methods
              hadrian_methods methods st
          else if is_method_out_of_scope openai_path method then
            method_loop str limit openai_spec hadrian_spec openai_path openai_methods
              hadrian_methods methods st
          else
            (case check_method str limit openai_spec hadrian_spec openai_path openai_methods
                    hadrian_methods method st of
               Inl e \<Rightarrow> Inl e
             | Inr st' \<Rightarrow>
                 method_loop str limit openai_spec hadrian_spec openai_path openai_methods
                   hadrian_methods methods st'))"

definition METHODS :: "string list" where
  "METHODS = [''get'', ''post'', ''put'', ''patch'', ''delete'']"

text \<open>
  \<^verbatim>\<open>PATH_MAPPING.get(openai_path)\<close>, with the \<^verbatim>\<open>/api/v1\<close> prefix where the table
  has no entry (no entry of the table is the empty string).
\<close>

definition hadrian_path_of :: "string \<Rightarrow> string" where
  "hadrian_path_of openai_path =
     (case map_of PATH_MAPPING openai_path of
        Some hadrian_path \<Rightarrow> if hadrian_path \<noteq> [] then hadrian_path else ''/api/v1'' @ openai_path
      | None \<Rightarrow> ''/api/v1'' @ openai_path)"

text \<open>The loop over the OpenAI paths; \<open>endpoint_filter\<close> is \<open>None\<close> for a full check.\<close>

fun path_loop ::
  "(json \<Rightarrow> string) \<Rightarrow> nat \<Rightarrow> json \<Rightarrow> json \<Rightarrow> string option \<Rightarrow> json \<Rightarrow> (string \<times> json) list
     \<Rightarrow> check_state \<Rightarrow> check_state result" where
  "path_loop str limit openai_spec hadrian_spec endpoint_filter hadrian_paths [] st = Inr st"
| "path_loop str limit openai_spec hadrian_spec endpoint_filter hadrian_paths
     ((openai_path, openai_methods) # rest) st =
     (case st of (report, co, ch) \<Rightarrow>
        if is_out_of_scope openai_path then
          path_loop str limit openai_spec hadrian_spec endpoint_filter hadrian_paths rest
            (report\<lparr>out_of_scope_endpoints := out_of_scope_endpoints report @ [openai_path]\<rparr>,
             co, ch)
        else if (case endpoint_filter of
                   None \<Rightarrow> False
                 | Some f \<Rightarrow> f \<noteq> [] \<and> \<not> substring f openai_path) then
          path_loop str limit openai_spec hadrian_spec endpoint_filter hadrian_paths rest st
        else
          (case get_or hadrian_paths (hadrian_path_of openai_path) (JObj []) of
             Inl e \<Rightarrow> Inl e
           | Inr hadrian_methods \<Rightarrow>
               (case method_loop str limit openai_spec hadrian_spec openai_path openai_methods
                       hadrian_methods METHODS st of
                  Inl e \<Rightarrow> Inl e
                | Inr st' \<Rightarrow>
                    path_loop str limit openai_spec hadrian_spec endpoint_filter hadrian_paths
                      rest st')))"

text \<open>The last loop: Hadrian-only endpoints.\<close>

fun hadrian_only ::
  "(string \<times> json) list \<Rightarrow> json list \<Rightarrow> string list result" where
  "hadrian_only openai_paths [] = Inr []"
| "hadrian_only openai_paths (p # ps) =
     (case p of
        JStr hadrian_path \<Rightarrow>
          thenE (hadrian_only openai_paths ps) (\<lambda>found.
            if startswith hadrian_path ''/admin/'' then Inr found
            else if hadrian_path \<in> set (map snd PATH_MAPPING) then Inr found
            else if startswith hadrian_path ''/api/v1/''
                    \<and> \<not> has_key openai_paths (replace ''/api/v1/'' ''/'' hadrian_path)
            then Inr (hadrian_path # found)
            else Inr found)
      | _ \<Rightarrow> Inl AttributeError)"

text \<open>
  \<^verbatim>\<open>check_conformance\<close>. The caches are those of the two resolvers when the check
  starts (empty in a run of the script).
\<close>

definition check_conformance ::
  "(json \<Rightarrow> string) \<Rightarrow> nat \<Rightarrow> json \<Rightarrow> json \<Rightarrow> cache \<Rightarrow> cache \<Rightarrow> string option
     \<Rightarrow> ConformanceReport result" where
  "check_conformance str limit openai_spec hadrian_spec co ch endpoint_filter =
     thenE (get_or openai_spec ''paths'' (JObj [])) (\<lambda>openai_paths.
     thenE (get_or hadrian_spec ''paths'' (JObj [])) (\<lambda>hadrian_paths.
     thenE (get_chain openai_spec [''info'']) (\<lambda>oi.
     thenE (get_or oi ''version'' (JStr ''unknown'')) (\<lambda>ov.
     thenE (get_chain hadrian_spec [''info'']) (\<lambda>hi.
     thenE (get_or hi ''version'' (JStr ''unknown'')) (\<lambda>hv.
     thenE (py_len openai_paths) (\<lambda>n_openai.
     thenE (py_len hadrian_paths) (\<lambda>n_hadrian.
       (case openai_paths of
          JObj ops \<Rightarrow>
            thenE (path_loop str limit openai_spec hadrian_spec endpoint_filter hadrian_paths ops
                     (\<lparr>openai_version = ov, hadrian_version = hv,
                       total_openai_endpoints = n_openai, total_hadrian_endpoints = n_hadrian,
                       endpoints_checked = 0, fully_conformant = 0, endpoints_with_diffs = [],
                       out_of_scope_endpoints = [], hadrian_only_endpoints = [],
                       violations = []\<rparr>, co, ch)) (\<lambda>(report, co', ch').
              thenE (py_iter hadrian_paths) (\<lambda>hps.
                thenE (hadrian_only ops hps) (\<lambda>found.
                  Inr (report\<lparr>hadrian_only_endpoints := found\<rparr>))))
        | _ \<Rightarrow> Inl AttributeError)))))))))"

section \<open>Example documents\<close>

definition body :: "json \<Rightarrow> json" where
  "body schema = JObj [(''requestBody'', JObj [(''content'', JObj [(''application/json'',
      JObj [(''schema'', schema)])])])]"

definition ex_openai_paths :: "(string \<times> json) list" where
  "ex_openai_paths =
     [(''/widgets'', JObj [(''post'', body (JObj [(''$ref'', JStr ''#/components/schemas/W'')]))]),
      (''/legacy'', JObj [(''get'', JObj [])]),
      (''/assistants'', JObj [(''get'', JObj [])])]"

definition ex_openai :: json where
  "ex_openai = JObj
     [(''paths'', JObj ex_openai_paths),
      (''components'', JObj [(''schemas'', JObj
        [(''W'', JObj [(''type'', JStr ''object''), (''required'', JArr [JStr ''name'']),
                      (''properties'', JObj [(''name'', JObj [(''type'', JStr ''string'')])])])])])]"

definition ex_hadrian_paths :: "(string \<times> json) list" where
  "ex_hadrian_paths =
     [(''/api/v1/widgets'', JObj [(''post'', body (JObj [(''type'', JStr ''object''),
         (''properties'', JObj [(''internal_id'', JObj [(''type'', JStr ''string''),
            (''description'', JStr ''**Hadrian Extension:** internal tracking id'')])])]))]),
      (''/health'', JObj [(''get'', JObj [])]),
      (''/api/v1/extra'', JObj [(''get'', JObj [])])]"

definition ex_hadrian :: json where
  "ex_hadrian = JObj [(''paths'', JObj ex_hadrian_paths)]"

text \<open>No example formats a value that is not a string: any \<open>str\<close> will do.\<close>

definition str0 :: "json \<Rightarrow> string" where
  "str0 v = []"

section \<open>Helper lemmas\<close>

lemma thenE_Inr: "thenE r f = Inr y \<Longrightarrow> \<exists>x. r = Inr x \<and> f x = Inr y"
  by (cases r) (auto simp: thenE_def)

section \<open>The counts of a report\<close>

definition counted :: "ConformanceReport \<Rightarrow> bool" where
  "counted r = (endpoints_checked r = fully_conformant r + length (endpoints_with_diffs r))"

lemma check_method_counted:
  assumes "check_method str limit os hs p om hm m (r, co, ch) = Inr (r', co', ch')" "counted r"
  shows "counted r'"
  using assms unfolding check_method_def
  by (auto simp: counted_def Let_def dest!: thenE_Inr split: if_splits prod.splits)

lemma method_loop_counted:
  "method_loop str limit os hs p om hm ms st = Inr st' \<Longrightarrow> counted (fst st) \<Longrightarrow> counted (fst st')"
proof (induction ms arbitrary: st)
  case Nil then show ?case by simp
next
  case (Cons m ms)
  then show ?case
    by (auto split: sum.splits if_splits dest: check_method_counted simp: prod_eq_iff)
       (metis check_method_counted prod.collapse)+
qed

lemma path_loop_counted:
  "path_loop str limit os hs ef hp ops st = Inr st' \<Longrightarrow> counted (fst st) \<Longrightarrow> counted (fst st')"
proof (induction ops arbitrary: st)
  case Nil then show ?case by simp
next
  case (Cons a ops)
  obtain p om where a: "a = (p, om)" by (cases a)
  obtain r co ch where st: "st = (r, co, ch)" by (cases st)
  show ?case using Cons.prems unfolding a st
    by (auto split: sum.splits if_splits dest!: Cons.IH method_loop_counted simp: counted_def)
qed

lemma ex_report_checked:
  "map_sum id (\<lambda>r. (endpoints_checked r, fully_conformant r, length (endpoints_with_diffs r)))
     (check_conformance str0 8 ex_openai ex_hadrian Map.empty Map.empty None)
   = Inr (2, 0, 2)"
  by code_simp

text \<open>
  C9. In every report that \<^verbatim>\<open>check_conformance\<close> returns, the number of endpoints
  checked is the number of fully conformant ones plus the length of the list of endpoints
  with diffs: each checked (path, method) pair is counted once, as conformant or as an
  entry of that list (a missing endpoint is such an entry).
\<close>

theorem check_conformance_counts:
  assumes "check_conformance str limit os hs co ch ef = Inr report"
  shows "endpoints_checked report = fully_conformant report + length (endpoints_with_diffs report)"
proof -
  from assms obtain ops hp r0 st' where
    pl: "path_loop str limit os hs ef hp ops (r0, co, ch) = Inr st'"
    and r0: "counted r0"
    and rep: "\<exists>found. report = (fst st')\<lparr>hadrian_only_endpoints := found\<rparr>"
    unfolding check_conformance_def
    by (auto dest!: thenE_Inr split: json.splits simp: counted_def) fastforce
  from path_loop_counted[OF pl] r0 have "counted (fst st')" by simp
  with rep show ?thesis by (auto simp: counted_def)
qed

theorem check_conformance_counts_witness:
  "\<exists>report. check_conformance str0 8 ex_openai ex_hadrian Map.empty Map.empty None = Inr report
     \<and> endpoints_checked report = 2 \<and> fully_conformant report = 0
     \<and> endpoints_checked report = fully_conformant report + length (endpoints_with_diffs report)"
proof -
  obtain report where
    r: "check_conformance str0 8 ex_openai ex_hadrian Map.empty Map.empty None = Inr report"
    using ex_report_checked
    by (cases "check_conformance str0 8 ex_openai ex_hadrian Map.empty Map.empty None") auto
  from ex_report_checked r have "endpoints_checked report = 2" "fully_conformant report = 0"
    by auto
  with r check_conformance_counts[OF r] show ?thesis by blast
qed

section \<open>The type classifier\<close>

lemma get_type_string_empty: "get_type_string str (JObj []) = Inr ''unknown''"
  by (subst get_type_string.simps) (simp add: declared_type_def dget_def has_key_def)

lemma get_type_string_array:
  assumes "dget kvs ''type'' JNull = JStr ''array''"
  shows "get_type_string str (JObj kvs) =
           map_sum id (\<lambda>t. ''array<'' @ t @ ''>'') (get_type_string str (dget kvs ''items'' (JObj [])))"
proof (cases "map_of kvs ''items''")
  case None
  have rhs: "get_type_string str (dget kvs ''items'' (JObj [])) = Inr ''unknown''"
    using None by (simp add: dget_def get_type_string_empty)
  have lhs: "get_type_string str (JObj kvs) = Inr ''array<unknown>''"
    using None assms by (subst get_type_string.simps) (simp add: declared_type_def)
  show ?thesis by (simp add: lhs rhs)
next
  case (Some items)
  have rhs: "dget kvs ''items'' (JObj []) = items"
    using Some by (simp add: dget_def)
  have lhs: "get_type_string str (JObj kvs) =
      (case get_type_string str items of Inl e \<Rightarrow> Inl e
       | Inr item_type \<Rightarrow> Inr (''array<'' @ item_type @ ''>''))"
    using Some assms by (subst get_type_string.simps) (simp add: declared_type_def)
  show ?thesis by (simp add: lhs rhs split: sum.splits)
qed

lemma get_type_string_object:
  assumes "dget kvs ''type'' JNull = JStr ''object''"
  shows "get_type_string str (JObj kvs) =
           (case map_of kvs ''additionalProperties'' of
              None \<Rightarrow> Inr ''object''
            | Some ap \<Rightarrow> map_sum id (\<lambda>t. ''map<string, '' @ t @ ''>'') (get_type_string str ap))"
  using assms
  by (subst get_type_string.simps) (simp add: declared_type_def split: sum.splits option.splits)

text \<open>
  C6. The classifier gives \<^verbatim>\<open>array<\<close>...\<^verbatim>\<open>>\<close> for an array and a map type for an
  object with an \<^verbatim>\<open>additionalProperties\<close> schema (the two lemmas above). The
  claim's last case fails: an object whose \<^verbatim>\<open>additionalProperties\<close> is the boolean
  \<^verbatim>\<open>false\<close> has no such schema, yet it is not classified as \<^verbatim>\<open>object\<close> but as a
  map whose value type is the text of the boolean. The resolver tests that the value is a
  dict before treating it as a schema; the classifier tests only that the key is there.
\<close>

theorem get_type_string_boolean_additionalProperties:
  "get_type_string str (JObj [(''type'', JStr ''object''), (''additionalProperties'', JBool False)])
     = Inr (''map<string, '' @ str (JBool False) @ ''>'')
   \<and> get_type_string str (JObj [(''type'', JStr ''object''), (''additionalProperties'', JBool False)])
     \<noteq> Inr ''object''"
  by (simp add: get_type_string.simps declared_type_def dget_def py_str_def)

section \<open>The policy on missing and extension fields\<close>

definition policy_inv :: "string \<Rightarrow> string \<Rightarrow> string \<Rightarrow> SchemaDiff list \<Rightarrow> Violation list \<Rightarrow> bool" where
  "policy_inv ep m loc ds vs =
     ((\<forall>v\<in>set vs.
         (\<exists>d\<in>set ds. diff_type d = MISSING_IN_HADRIAN \<and> \<not> documented (ep, m, loc, sd_field d)
                       \<and> v = undocumented_violation ep m loc (sd_field d))
         \<or> (\<exists>d\<in>set ds. diff_type d = HADRIAN_EXTENSION
                       \<and> v = unmarked_violation ep m loc (sd_field d)))
      \<and> (\<forall>d\<in>set ds. diff_type d = MISSING_IN_HADRIAN \<and> \<not> documented (ep, m, loc, sd_field d)
            \<longrightarrow> undocumented_violation ep m loc (sd_field d) \<in> set vs))"

lemma policy_inv_Nil: "policy_inv ep m loc [] []"
  by (simp add: policy_inv_def)

lemma policy_inv_append:
  "policy_inv ep m loc ds1 vs1 \<Longrightarrow> policy_inv ep m loc ds2 vs2
     \<Longrightarrow> policy_inv ep m loc (ds1 @ ds2) (vs1 @ vs2)"
  unfolding policy_inv_def by (intro conjI ballI; simp; blast)

lemma policy_inv_info:
  "\<forall>d\<in>set ds. diff_type d = TYPE_MISMATCH \<or> diff_type d = REQUIRED_MISMATCH
     \<Longrightarrow> policy_inv ep m loc ds []"
  by (auto simp: policy_inv_def)

lemma missing_loop_policy:
  "missing_loop str hp oreq ctx ep m loc props = Inr (ds, vs) \<Longrightarrow> policy_inv ep m loc ds vs"
proof (induction props arbitrary: ds vs)
  case Nil then show ?case by (simp add: policy_inv_Nil)
next
  case (Cons a props)
  obtain f v where a: "a = (f, v)" by (cases a)
  show ?case
  proof (cases "py_in f hp = Inr True")
    case True
    with Cons show ?thesis by (simp add: a)
  next
    case False
    with Cons.prems obtain t ds' vs' where
      rest: "missing_loop str hp oreq ctx ep m loc props = Inr (ds', vs')"
      and ds: "ds = missing_diff ctx f t (JStr f \<in> set oreq) # ds'"
      and vs: "vs = (if \<not> documented (ep, m, loc, f) then [undocumented_violation ep m loc f] else []) @ vs'"
      by (auto simp: a split: sum.splits if_splits)
    have one: "policy_inv ep m loc [missing_diff ctx f t (JStr f \<in> set oreq)]
                 (if \<not> documented (ep, m, loc, f) then [undocumented_violation ep m loc f] else [])"
      by (simp add: policy_inv_def missing_diff_def)
    from policy_inv_append[OF one Cons.IH[OF rest]] show ?thesis by (simp add: ds vs)
  qed
qed

lemma extension_loop_policy:
  "extension_loop str op ctx ep m loc props = Inr (ds, vs) \<Longrightarrow> policy_inv ep m loc ds vs"
proof (induction props arbitrary: ds vs)
  case Nil then show ?case by (simp add: policy_inv_Nil)
next
  case (Cons a props)
  obtain f v where a: "a = (f, v)" by (cases a)
  show ?case
  proof (cases "has_key op f")
    case True
    with Cons show ?thesis by (simp add: a)
  next
    case False
    with Cons.prems obtain t b ds' vs' where
      rest: "extension_loop str op ctx ep m loc props = Inr (ds', vs')"
      and ds: "ds = extension_diff ctx f t # ds'"
      and vs: "vs = (if \<not> b then [unmarked_violation ep m loc f] else []) @ vs'"
      by (auto simp: a split: sum.splits if_splits json.splits)
    have one: "policy_inv ep m loc [extension_diff ctx f t]
                 (if \<not> b then [unmarked_violation ep m loc f] else [])"
      by (simp add: policy_inv_def extension_diff_def)
    from policy_inv_append[OF one Cons.IH[OF rest]] show ?thesis by (simp add: ds vs)
  qed
qed

lemma compare_policy:
  "compare_schemas str os hs ctx ep m loc = Inr (ds, vs) \<Longrightarrow> policy_inv ep m loc ds vs"
  "common_loop str hp oreq hreq ctx ep m loc props = Inr (ds, vs) \<Longrightarrow> policy_inv ep m loc ds vs"
proof (induction str os hs ctx ep m loc and str hp oreq hreq ctx ep m loc props
       arbitrary: ds vs and ds vs rule: compare_schemas_common_loop.induct)
  case (1 str os hs ctx ep m loc)
  from "1.prems" obtain okvs hkvs oreq hreq oprops hprops d1 v1 d2 v2 d3 v3 where
    os: "os = JObj okvs" and hs: "hs = JObj hkvs"
    and oreq: "required_set okvs = Inr oreq" and hreq: "required_set hkvs = Inr hreq"
    and op: "dget okvs ''properties'' (JObj []) = JObj oprops"
    and ml0: "missing_loop str (JObj hprops) oreq ctx ep m loc oprops = Inr (d1, v1)"
    and hp: "dget hkvs ''properties'' (JObj []) = JObj hprops"
    and el: "extension_loop str oprops ctx ep m loc hprops = Inr (d2, v2)"
    and cl: "common_loop str hprops oreq hreq ctx ep m loc oprops = Inr (d3, v3)"
    and res: "ds = d1 @ d2 @ d3" "vs = v1 @ v2 @ v3"
    by (subst (asm) compare_schemas.simps) (auto split: json.splits sum.splits)
  have ml: "missing_loop str (dget hkvs ''properties'' (JObj [])) oreq ctx ep m loc oprops = Inr (d1, v1)"
    using ml0 hp by simp
  have p3: "policy_inv ep m loc d3 v3"
    using "1.IH"[OF os hs oreq hreq op ml refl hp el refl cl] .
  show ?case unfolding res
    by (intro policy_inv_append missing_loop_policy[OF ml] extension_loop_policy[OF el] p3)
next
  case (2 str hp oreq hreq ctx ep m loc)
  then show ?case by (simp add: policy_inv_Nil)
next
  case (3 str hp oreq hreq ctx ep m loc f ofield rest)
  show ?case
  proof (cases "has_key hp f")
    case False
    with "3.prems" have "common_loop str hp oreq hreq ctx ep m loc rest = Inr (ds, vs)"
      by simp
    with "3.IH"(1) False show ?thesis by simp
  next
    case True
    from "3.prems" True obtain ot ht nd nv ds' vs' where
      ot: "get_type_string str ofield = Inr ot"
      and ht: "get_type_string str (dget hp f JNull) = Inr ht"
      and nested: "(case ofield of
                 JObj ofld \<Rightarrow>
                   if dget ofld ''type'' JNull = JStr ''object'' then
                     (case dget hp f JNull of
                        JObj hfld \<Rightarrow>
                          if dget hfld ''type'' JNull = JStr ''object'' then
                            compare_schemas str ofield (dget hp f JNull)
                              (ctx @ ''.'' @ f) ep m loc
                          else Inr ([], [])
                      | _ \<Rightarrow> Inl AttributeError)
                   else Inr ([], [])
               | _ \<Rightarrow> Inl AttributeError) = Inr (nd, nv)"
      and rest: "common_loop str hp oreq hreq ctx ep m loc rest = Inr (ds', vs')"
      and ds: "ds = (if \<not> types_compatible ot ht then [type_mismatch_diff ctx f ot ht] else [])
                  @ (if JStr f \<in> set oreq \<and> JStr f \<notin> set hreq
                     then [required_mismatch_diff ctx f] else []) @ nd @ ds'"
      and vs: "vs = nv @ vs'"
      by (auto split: sum.splits)
    have pn: "policy_inv ep m loc nd nv"
    proof (cases "\<exists>ofld hfld. ofield = JObj ofld \<and> dget ofld ''type'' JNull = JStr ''object''
                    \<and> dget hp f JNull = JObj hfld \<and> dget hfld ''type'' JNull = JStr ''object''")
      case True
      then obtain ofld hfld where c: "ofield = JObj ofld" "dget ofld ''type'' JNull = JStr ''object''"
        "dget hp f JNull = JObj hfld" "dget hfld ''type'' JNull = JStr ''object''" by blast
      with nested have "compare_schemas str ofield (dget hp f JNull) (ctx @ ''.'' @ f) ep m loc = Inr (nd, nv)"
        by simp
      with "3.IH"(2) \<open>has_key hp f\<close> ot ht c show ?thesis by blast
    next
      case False
      with nested have "nd = [] \<and> nv = []"
        by (auto split: json.splits if_splits)
      then show ?thesis by (simp add: policy_inv_Nil)
    qed
    have pr: "policy_inv ep m loc ds' vs'"
      using "3.IH"(3) True ot ht nested rest by blast
    have pi: "policy_inv ep m loc
            ((if \<not> types_compatible ot ht then [type_mismatch_diff ctx f ot ht] else [])
               @ (if JStr f \<in> set oreq \<and> JStr f \<notin> set hreq
                  then [required_mismatch_diff ctx f] else [])) []"
      by (rule policy_inv_info) (auto simp: type_mismatch_diff_def required_mismatch_diff_def)
    from policy_inv_append[OF pi policy_inv_append[OF pn pr]] show ?thesis
      by (simp add: ds vs)
  qed
qed

lemma policy_inv_location:
  "policy_inv ep m loc ds vs \<Longrightarrow> v \<in> set vs \<Longrightarrow> v_location v = loc"
  by (auto simp: policy_inv_def undocumented_violation_def unmarked_violation_def)


definition ex_ref_schema :: json where
  "ex_ref_schema = JObj [(''type'', JStr ''object''), (''required'', JArr [JStr ''model'']),
     (''properties'', JObj [(''model'', JObj [(''type'', JStr ''string'')]),
                            (''n'', JObj [(''type'', JStr ''integer'')]),
                            (''foo'', JObj [(''type'', JStr ''string'')])])]"






section \<open>Skipped body comparisons\<close>

lemma missing_params_location:
  "missing_params hp p m ps = Inr (ds, vs) \<Longrightarrow> v \<in> set vs \<Longrightarrow> v_location v = ''param''"
proof (induction ps arbitrary: ds vs)
  case Nil then show ?case by simp
next
  case (Cons a ps)
  obtain k x where a: "a = (k, x)" by (cases a)
  from Cons.prems show ?case unfolding a
    by (auto dest!: thenE_Inr split: if_splits dest: Cons.IH
             simp: undocumented_param_violation_def)
qed

lemma extension_params_location:
  "extension_params op p m ps = Inr (ds, vs) \<Longrightarrow> v \<in> set vs \<Longrightarrow> v_location v = ''param''"
proof (induction ps arbitrary: ds vs)
  case Nil then show ?case by simp
next
  case (Cons a ps)
  obtain k x where a: "a = (k, x)" by (cases a)
  from Cons.prems show ?case unfolding a
    by (auto dest!: thenE_Inr split: if_splits dest: Cons.IH
             simp: unmarked_param_violation_def)
qed

lemma compare_params_location:
  "compare_params p m oop hop = Inr (ds, vs) \<Longrightarrow> v \<in> set vs \<Longrightarrow> v_location v = ''param''"
  unfolding compare_params_def
  by (auto dest!: thenE_Inr dest: missing_params_location extension_params_location)

lemma compare_body_location:
  "compare_body str limit os hs co ch a b ctx ep m loc = Inr ((ds, vs), co', ch')
     \<Longrightarrow> v \<in> set vs \<Longrightarrow> v_location v = loc"
  unfolding compare_body_def
  by (auto dest!: thenE_Inr split: if_splits dest!: compare_policy(1) dest: policy_inv_location)

lemma compare_body_skipped:
  "\<not> truthy a \<or> \<not> truthy b \<Longrightarrow>
   compare_body str limit os hs co ch a b ctx ep m loc = Inr (([], []), co, ch)"
  by (auto simp: compare_body_def)

definition lacks_schema :: "json result \<Rightarrow> bool" where
  "lacks_schema r = (case r of Inl e \<Rightarrow> False | Inr s \<Rightarrow> \<not> truthy s)"

text \<open>
  C10. If either operation has no (or an empty) \<^verbatim>\<open>application/json\<close> schema for the
  request body, \<^verbatim>\<open>_compare_endpoint\<close> returns no request diffs and no violation
  located in the request, whatever the other side declares; the same for the body of the
  200 response.
\<close>

theorem body_comparison_skipped:
  assumes "compare_endpoint str limit os hs co ch p m oop hop = Inr ((ed, vs), co', ch')"
  shows "(lacks_schema (request_schema oop) \<or> lacks_schema (request_schema hop)
            \<longrightarrow> request_diffs ed = [] \<and> (\<forall>v\<in>set vs. v_location v \<noteq> ''request''))
         \<and> (lacks_schema (response_schema oop) \<or> lacks_schema (response_schema hop)
            \<longrightarrow> response_diffs ed = [] \<and> (\<forall>v\<in>set vs. v_location v \<noteq> ''response''))"
proof -
  from assms obtain a b rd rv co1 ch1 a' b' sd sv pd pv where
    a: "request_schema oop = Inr a" and b: "request_schema hop = Inr b"
    and req: "compare_body str limit os hs co ch a b (p @ '' request'') p (upper m) ''request''
               = Inr ((rd, rv), co1, ch1)"
    and a': "response_schema oop = Inr a'" and b': "response_schema hop = Inr b'"
    and resp: "compare_body str limit os hs co1 ch1 a' b' (p @ '' response'') p (upper m) ''response''
               = Inr ((sd, sv), co', ch')"
    and par: "compare_params p (upper m) oop hop = Inr (pd, pv)"
    and ed: "request_diffs ed = rd" "response_diffs ed = sd"
    and vs: "vs = rv @ sv @ pv"
    unfolding compare_endpoint_def
    by (auto dest!: thenE_Inr)
  have lr: "\<And>v. v \<in> set rv \<Longrightarrow> v_location v = ''request''"
    using compare_body_location[OF req] .
  have ls: "\<And>v. v \<in> set sv \<Longrightarrow> v_location v = ''response''"
    using compare_body_location[OF resp] .
  have lp: "\<And>v. v \<in> set pv \<Longrightarrow> v_location v = ''param''"
    using compare_params_location[OF par] .
  have 1: "request_diffs ed = [] \<and> (\<forall>v\<in>set vs. v_location v \<noteq> ''request'')"
    if "lacks_schema (request_schema oop) \<or> lacks_schema (request_schema hop)"
  proof -
    from that a b have "\<not> truthy a \<or> \<not> truthy b" by (auto simp: lacks_schema_def)
    from compare_body_skipped[OF this] req have "rd = []" "rv = []" by simp_all
    with ed vs ls lp show ?thesis by auto
  qed
  have 2: "response_diffs ed = [] \<and> (\<forall>v\<in>set vs. v_location v \<noteq> ''response'')"
    if "lacks_schema (response_schema oop) \<or> lacks_schema (response_schema hop)"
  proof -
    from that a' b' have "\<not> truthy a' \<or> \<not> truthy b'" by (auto simp: lacks_schema_def)
    from compare_body_skipped[OF this] resp have "sd = []" "sv = []" by simp_all
    with ed vs lr lp show ?thesis by auto
  qed
  from 1 2 show ?thesis by blast
qed

definition ex_op_with_body :: json where
  "ex_op_with_body = body ex_ref_schema"

lemma ex_endpoint_eval:
  "map_sum id (\<lambda>((ed, vs), c). (request_diffs ed, response_diffs ed, length (param_diffs ed), vs))
     (compare_endpoint str0 8 ex_openai ex_hadrian Map.empty Map.empty ''/widgets'' ''post''
        ex_op_with_body (JObj []))
   = Inr ([], [], 0, [])"
  by code_simp

lemma ex_lacks: "lacks_schema (request_schema (JObj []))" "\<not> lacks_schema (request_schema ex_op_with_body)"
  by code_simp+

theorem body_comparison_skipped_witness:
  "\<exists>ed vs co' ch'.
     compare_endpoint str0 8 ex_openai ex_hadrian Map.empty Map.empty ''/widgets'' ''post''
        ex_op_with_body (JObj []) = Inr ((ed, vs), co', ch')
     \<and> \<not> lacks_schema (request_schema ex_op_with_body)
     \<and> lacks_schema (request_schema (JObj []))
     \<and> request_diffs ed = [] \<and> (\<forall>v\<in>set vs. v_location v \<noteq> ''request'')"
proof -
  obtain ed vs co' ch' where
    r: "compare_endpoint str0 8 ex_openai ex_hadrian Map.empty Map.empty ''/widgets'' ''post''
          ex_op_with_body (JObj []) = Inr ((ed, vs), co', ch')"
    using ex_endpoint_eval
    by (cases "compare_endpoint str0 8 ex_openai ex_hadrian Map.empty Map.empty ''/widgets''
                 ''post'' ex_op_with_body (JObj [])") auto
  from body_comparison_skipped[OF r] ex_lacks r show ?thesis by blast
qed

section \<open>Hadrian-only endpoints\<close>

definition reported_extension :: "(string \<times> json) list \<Rightarrow> string \<Rightarrow> bool" where
  "reported_extension openai_paths p =
     (\<not> startswith p ''/admin/'' \<and> p \<notin> set (map snd PATH_MAPPING) \<and> startswith p ''/api/v1/''
      \<and> \<not> has_key openai_paths (replace ''/api/v1/'' ''/'' p))"

lemma hadrian_only_set:
  "hadrian_only ops ps = Inr found \<Longrightarrow>
     set found = {p. JStr p \<in> set ps \<and> reported_extension ops p}"
proof (induction ps arbitrary: found)
  case Nil then show ?case by simp
next
  case (Cons a ps)
  from Cons.prems obtain p found' where a: "a = JStr p"
    and rest: "hadrian_only ops ps = Inr found'"
    and found: "found = (if reported_extension ops p then p # found' else found')"
    by (auto split: json.splits dest!: thenE_Inr simp: reported_extension_def split: if_splits)
  from Cons.IH[OF rest] show ?case by (auto simp: found a)
qed

lemma py_iter_dict_keys: "JStr p \<in> (\<lambda>(k, v). JStr k) ` set kvs \<longleftrightarrow> has_key kvs p"
  by (induction kvs) (auto simp: has_key_def)

text \<open>
  C8, as the code has it. The list of Hadrian-only endpoints of a report holds exactly
  the paths of the Hadrian document that start with \<^verbatim>\<open>/api/v1/\<close>, are not a target
  of \<^verbatim>\<open>PATH_MAPPING\<close> (nor under \<^verbatim>\<open>/admin/\<close>), and whose form with every
  \<^verbatim>\<open>/api/v1/\<close> replaced by \<^verbatim>\<open>/\<close> is not a path of the OpenAI document. A path
  outside \<^verbatim>\<open>/api/v1/\<close> is never listed.
\<close>

theorem hadrian_only_endpoints_exact:
  assumes "check_conformance str limit os hs co ch ef = Inr report"
    and "get_or os ''paths'' (JObj []) = Inr (JObj openai_paths)"
    and "get_or hs ''paths'' (JObj []) = Inr (JObj hadrian_paths)"
  shows "p \<in> set (hadrian_only_endpoints report) \<longleftrightarrow>
           has_key hadrian_paths p \<and> \<not> startswith p ''/admin/''
           \<and> p \<notin> set (map snd PATH_MAPPING) \<and> startswith p ''/api/v1/''
           \<and> \<not> has_key openai_paths (replace ''/api/v1/'' ''/'' p)"
proof -
  from assms obtain found where
    f: "hadrian_only openai_paths (map (\<lambda>(k, v). JStr k) hadrian_paths) = Inr found"
    and rep: "hadrian_only_endpoints report = found"
    unfolding check_conformance_def
    by (auto dest!: thenE_Inr)
  from hadrian_only_set[OF f] show ?thesis
    by (simp add: rep py_iter_dict_keys reported_extension_def)
qed

lemma ex_hadrian_only_eval:
  "map_sum id hadrian_only_endpoints
     (check_conformance str0 8 ex_openai ex_hadrian Map.empty Map.empty None)
   = Inr [''/api/v1/extra'']"
  by code_simp

text \<open>
  C8 as stated fails: \<^verbatim>\<open>/health\<close> is a path of the Hadrian document only, is no
  mapping target, is not under \<^verbatim>\<open>/admin/\<close> and cannot come from the prefix convention,
  and the report does not list it.
\<close>

theorem health_not_reported:
  "map_sum id hadrian_only_endpoints
     (check_conformance str0 8 ex_openai ex_hadrian Map.empty Map.empty None)
   = Inr [''/api/v1/extra'']
   \<and> get_or ex_hadrian ''paths'' (JObj []) = Inr (JObj ex_hadrian_paths)
   \<and> get_or ex_openai ''paths'' (JObj []) = Inr (JObj ex_openai_paths)
   \<and> has_key ex_hadrian_paths ''/health''
   \<and> \<not> has_key ex_openai_paths ''/health''
   \<and> ''/health'' \<notin> set (map snd PATH_MAPPING)
   \<and> \<not> startswith ''/health'' ''/api/v1''
   \<and> \<not> startswith ''/health'' ''/admin/''"
  by code_simp

lemma ex_paths:
  "get_or ex_openai ''paths'' (JObj []) = Inr (JObj ex_openai_paths)"
  "get_or ex_hadrian ''paths'' (JObj []) = Inr (JObj ex_hadrian_paths)"
  by (simp_all add: ex_openai_def ex_hadrian_def)

theorem hadrian_only_endpoints_exact_witness:
  "\<exists>report. check_conformance str0 8 ex_openai ex_hadrian Map.empty Map.empty None = Inr report
     \<and> ''/api/v1/extra'' \<in> set (hadrian_only_endpoints report)
     \<and> ''/health'' \<notin> set (hadrian_only_endpoints report)"
proof -
  obtain report where
    r: "check_conformance str0 8 ex_openai ex_hadrian Map.empty Map.empty None = Inr report"
    using ex_hadrian_only_eval
    by (cases "check_conformance str0 8 ex_openai ex_hadrian Map.empty Map.empty None") auto
  note ex = hadrian_only_endpoints_exact[OF r ex_paths]
  have "\<not> startswith ''/health'' ''/api/v1/''" by code_simp
  then have 1: "''/health'' \<notin> set (hadrian_only_endpoints report)"
    using ex[of "''/health''"] by blast
  have "has_key ex_hadrian_paths ''/api/v1/extra''
      \<and> \<not> startswith ''/api/v1/extra'' ''/admin/''
      \<and> ''/api/v1/extra'' \<notin> set (map snd PATH_MAPPING) \<and> startswith ''/api/v1/extra'' ''/api/v1/''
      \<and> \<not> has_key ex_openai_paths (replace ''/api/v1/'' ''/'' ''/api/v1/extra'')"
    by code_simp
  then have 2: "''/api/v1/extra'' \<in> set (hadrian_only_endpoints report)"
    using ex[of "''/api/v1/extra''"] by blast
  from r 1 2 show ?thesis by blast
qed

section \<open>Cyclic references\<close>













section \<open>Dangling references and nullable unions\<close>

fun dangling :: "json \<Rightarrow> string list \<Rightarrow> bool" where
  "dangling v [] = False"
| "dangling (JObj kvs) (part # parts) =
     (case map_of kvs part of None \<Rightarrow> True | Some v \<Rightarrow> dangling v parts)"
| "dangling _ (part # parts) = True"

lemma walk_empty: "walk (JObj []) parts = Some (JObj [])"
  by (induction parts) (simp_all add: dget_def)

lemma dangling_walk:
  "dangling v parts \<Longrightarrow> walk v parts = None \<or> walk v parts = Some (JObj [])"
proof (induction v parts rule: walk.induct)
  case (1 result)
  then show ?case by simp
next
  case (2 kvs part parts)
  then show ?case
    by (cases "map_of kvs part") (simp_all add: dget_def walk_empty)
qed simp_all

lemma resolve_schema_body_empty: "resolve_schema_body rr rs c (JObj []) = Inr (JObj [], c)"
  by (simp add: resolve_schema_body_def has_key_def resolve_nested_def resolve_properties_def
        resolve_items_def resolve_additional_def thenE_def)

text \<open>
  C4. A reference \<^verbatim>\<open>#/a/b/...\<close> with a path segment that is absent from the document
  (or lies below a value that is not a dict), resolved for the first time with at least
  two frames left, gives the empty schema and no exception; resolving it again gives the
  empty schema again, and a node that is just this reference resolves to the empty schema.
\<close>

theorem dangling_ref_empty_schema:
  assumes "startswith r ''#/''" and "dangling doc (split CHR ''/'' (drop 2 r))" and "c r = None"
  shows "\<exists>c'. resolve_ref (Suc (Suc n)) doc c (JStr r) = Inr (JObj [], c')
              \<and> resolve_ref (Suc (Suc n)) doc c' (JStr r) = Inr (JObj [], c')
              \<and> resolve_schema (Suc (Suc (Suc n))) doc c (JObj [(''$ref'', JStr r)])
                  = Inr (JObj [], c')"
proof -
  note w = dangling_walk[OF assms(2)]
  show ?thesis
  proof (cases "walk doc (split CHR ''/'' (drop 2 r))")
    case None
    with assms have rr: "resolve_ref (Suc (Suc n)) doc c (JStr r) = Inr (JObj [], c)"
      by (simp add: resolve_ref_body_def)
    then have "resolve_schema (Suc (Suc (Suc n))) doc c (JObj [(''$ref'', JStr r)]) = Inr (JObj [], c)"
      by (simp add: resolve_schema_body_def has_key_def dget_def thenE_def)
    with rr show ?thesis by blast
  next
    case (Some a)
    with w have "walk doc (split CHR ''/'' (drop 2 r)) = Some (JObj [])" by simp
    with assms have rr: "resolve_ref (Suc (Suc n)) doc c (JStr r) = Inr (JObj [], c(r \<mapsto> JObj []))"
      by (simp add: resolve_ref_body_def resolve_schema_body_empty thenE_def)
    have again: "resolve_ref (Suc (Suc n)) doc (c(r \<mapsto> JObj [])) (JStr r) = Inr (JObj [], c(r \<mapsto> JObj []))"
      by (simp add: resolve_ref_body_def)
    from rr have "resolve_schema (Suc (Suc (Suc n))) doc c (JObj [(''$ref'', JStr r)])
                   = Inr (JObj [], c(r \<mapsto> JObj []))"
      by (simp add: resolve_schema_body_def has_key_def dget_def thenE_def)
    with rr again show ?thesis by blast
  qed
qed

lemma ex_dangling:
  "startswith ''#/components/schemas/Missing'' ''#/''"
  "dangling ex_openai (split CHR ''/'' (drop 2 ''#/components/schemas/Missing''))"
  by code_simp+

theorem dangling_ref_empty_schema_witness:
  "startswith ''#/components/schemas/Missing'' ''#/''
   \<and> dangling ex_openai (split CHR ''/'' (drop 2 ''#/components/schemas/Missing''))
   \<and> (\<exists>c'. resolve_schema 3 ex_openai Map.empty (JObj [(''$ref'', JStr ''#/components/schemas/Missing'')])
              = Inr (JObj [], c'))"
proof -
  have "Map.empty ''#/components/schemas/Missing'' = (None :: json option)" by simp
  from dangling_ref_empty_schema[where c = Map.empty and n = 0, OF ex_dangling this] ex_dangling
  show ?thesis by (auto simp: numeral_3_eq_3)
qed

lemma non_null_first:
  "list_all is_null_option pre \<Longrightarrow> \<not> is_null_option first
     \<Longrightarrow> non_null_options (pre @ first # post) = first # non_null_options post"
  by (induction pre) (simp_all add: non_null_options_def)

lemma non_null_none: "list_all is_null_option options \<Longrightarrow> non_null_options options = []"
  by (induction options) (simp_all add: non_null_options_def)

text \<open>
  C3, as the code has it. For a node with \<^verbatim>\<open>oneOf\<close> or \<^verbatim>\<open>anyOf\<close> and neither
  \<^verbatim>\<open>$ref\<close> nor \<^verbatim>\<open>allOf\<close>, the options are those of \<^verbatim>\<open>oneOf\<close> unless it is
  empty (then those of \<^verbatim>\<open>anyOf\<close>). Options whose own declared type is \<^verbatim>\<open>"null"\<close>
  are dropped. If all are dropped the result is the null-type schema marked nullable;
  otherwise it is the resolution of the first remaining option with \<^verbatim>\<open>_nullable\<close> set.
  One null option and one other option, in either order, is an instance.
\<close>

theorem oneOf_anyOf_first_non_null:
  assumes "\<not> has_key kvs ''$ref''" and "\<not> has_key kvs ''allOf''"
    and "has_key kvs ''oneOf'' \<or> has_key kvs ''anyOf''"
    and "py_iter (if truthy (dget kvs ''oneOf'' JNull) then dget kvs ''oneOf'' JNull
                  else dget kvs ''anyOf'' (JArr [])) = Inr options"
  shows "(list_all is_null_option options \<longrightarrow>
            resolve_schema (Suc n) doc c (JObj kvs)
              = Inr (JObj [(''type'', JStr ''null''), (''_nullable'', JBool True)], c))
       \<and> (options = pre @ first # post \<and> list_all is_null_option pre \<and> \<not> is_null_option first
            \<and> resolve_schema n doc c first = Inr (JObj r, c') \<longrightarrow>
            resolve_schema (Suc n) doc c (JObj kvs)
              = Inr (JObj (setitem r ''_nullable'' (JBool True)), c'))"
  using assms
  by (auto simp: resolve_schema_body_def choose_options_def thenE_def non_null_first non_null_none)

definition ex_nullable :: "(string \<times> json) list" where
  "ex_nullable = [(''oneOf'', JArr [JObj [(''type'', JStr ''null'')], JObj [(''type'', JStr ''string'')]])]"

theorem oneOf_anyOf_first_non_null_witness:
  "resolve_schema (Suc (Suc 0)) ex_openai Map.empty (JObj ex_nullable)
     = Inr (JObj [(''type'', JStr ''string''), (''_nullable'', JBool True)], Map.empty)"
proof -
  have 1: "\<not> has_key ex_nullable ''$ref''" "\<not> has_key ex_nullable ''allOf''"
    "has_key ex_nullable ''oneOf'' \<or> has_key ex_nullable ''anyOf''"
    by code_simp+
  have 2: "py_iter (if truthy (dget ex_nullable ''oneOf'' JNull) then dget ex_nullable ''oneOf'' JNull
                  else dget ex_nullable ''anyOf'' (JArr []))
           = Inr ([JObj [(''type'', JStr ''null'')]] @ JObj [(''type'', JStr ''string'')] # [])"
    by (simp add: ex_nullable_def dget_def)
  have 3: "list_all is_null_option [JObj [(''type'', JStr ''null'')]]"
    "\<not> is_null_option (JObj [(''type'', JStr ''string'')])"
    by (simp_all add: dget_def)
  have 4: "resolve_schema (Suc 0) ex_openai Map.empty (JObj [(''type'', JStr ''string'')])
           = Inr (JObj [(''type'', JStr ''string'')], Map.empty)"
    by (simp add: resolve_schema_body_def has_key_def resolve_nested_def resolve_properties_def
        resolve_items_def resolve_additional_def thenE_def)
  from oneOf_anyOf_first_non_null[OF 1 2, THEN conjunct2, rule_format, of "[JObj [(''type'', JStr ''null'')]]"
      "JObj [(''type'', JStr ''string'')]" "[]" "Suc 0" ex_openai Map.empty "[(''type'', JStr ''string'')]" Map.empty]
    3 4
  show ?thesis by (simp add: setitem_def)
qed

definition ex_null_doc :: json where
  "ex_null_doc = JObj [(''components'', JObj [(''schemas'', JObj
     [(''N'', JObj [(''type'', JStr ''null'')])])])]"

definition ex_ref_null :: json where
  "ex_ref_null = JObj [(''$ref'', JStr ''#/components/schemas/N'')]"

definition ex_oneOf_ref_null :: json where
  "ex_oneOf_ref_null = JObj [(''oneOf'', JArr [ex_ref_null, JObj [(''type'', JStr ''string'')]])]"

definition ex_empty_oneOf :: json where
  "ex_empty_oneOf = JObj [(''oneOf'', JArr []), (''anyOf'', JArr [JObj [(''type'', JStr ''string'')]])]"

text \<open>
  C3 as stated fails: the first option below resolves to a schema of type \<^verbatim>\<open>"null"\<close>,
  so the claim drops it and resolves the string option; the code tests the declared type
  of the option before resolution, keeps the reference and returns a null-type schema.
  And with an empty \<^verbatim>\<open>oneOf\<close> next to an \<^verbatim>\<open>anyOf\<close>, the code takes the options of
  \<^verbatim>\<open>anyOf\<close>.
\<close>

theorem oneOf_ref_to_null_not_filtered:
  "map_sum id fst (resolve_schema 64 ex_null_doc Map.empty ex_ref_null)
     = Inr (JObj [(''type'', JStr ''null'')])
   \<and> map_sum id fst (resolve_schema 64 ex_null_doc Map.empty (JObj [(''type'', JStr ''string'')]))
     = Inr (JObj [(''type'', JStr ''string'')])
   \<and> map_sum id fst (resolve_schema 64 ex_null_doc Map.empty ex_oneOf_ref_null)
     = Inr (JObj [(''type'', JStr ''null''), (''_nullable'', JBool True)])
   \<and> map_sum id fst (resolve_schema 64 ex_null_doc Map.empty ex_oneOf_ref_null)
     \<noteq> Inr (JObj [(''type'', JStr ''string''), (''_nullable'', JBool True)])
   \<and> map_sum id fst (resolve_schema 64 ex_null_doc Map.empty ex_empty_oneOf)
     = Inr (JObj [(''type'', JStr ''string''), (''_nullable'', JBool True)])"
  by code_simp

section \<open>Resolving twice\<close>

lemma size_snd_mem: "kv \<in> set props \<Longrightarrow> size (snd kv) < size (JObj props)"
  by (induction props) auto









lemma size_mem_arr: "x \<in> set xs \<Longrightarrow> size x < size (JArr xs)"
  by (induction xs) auto

lemma size_dget_any: "has_key kvs k \<Longrightarrow> size (dget kvs k d) < size (JObj kvs)"
proof -
  assume "has_key kvs k"
  then obtain v where v: "map_of kvs k = Some v" by (auto simp: has_key_def)
  from size_map_of[OF v] v show ?thesis by (simp add: dget_def)
qed

lemma size_choose_options:
  "choose_options kvs = JArr options \<Longrightarrow> x \<in> set options \<Longrightarrow> size x < size (JObj kvs)"
proof -
  assume c: "choose_options kvs = JArr options" and x: "x \<in> set options"
  have "size (JArr options) \<le> size (JObj kvs)"
  proof (cases "truthy (dget kvs ''oneOf'' JNull)")
    case True
    then have "map_of kvs ''oneOf'' = Some (JArr options)"
      using c by (auto simp: choose_options_def dget_def split: option.splits)
    from size_map_of[OF this] show ?thesis by simp
  next
    case False
    with c have d: "dget kvs ''anyOf'' (JArr []) = JArr options" by (simp add: choose_options_def)
    show ?thesis
    proof (cases "map_of kvs ''anyOf''")
      case None
      with d x show ?thesis by (simp add: dget_def)
    next
      case (Some a)
      with d have "map_of kvs ''anyOf'' = Some (JArr options)" by (simp add: dget_def)
      from size_map_of[OF this] show ?thesis by simp
    qed
  qed
  with size_mem_arr[OF x] show ?thesis by simp
qed










lemma map_of_setitem: "map_of (setitem d k v) = (map_of d)(k \<mapsto> v)"
  by (simp add: setitem_def update_conv')






































section \<open>Cyclic reference chains\<close>

text \<open>
  A chain of references is cyclic when following it never ends. For a set \<open>R\<close> of
  references, \<open>cyclic_through R schema\<close> says that the resolver, resolving \<open>schema\<close>, is
  led to a reference of \<open>R\<close>: the node is such a reference, or one is found in a member
  of its \<^verbatim>\<open>allOf\<close>, in the option of its \<^verbatim>\<open>oneOf\<close>/\<^verbatim>\<open>anyOf\<close> that is resolved, in a
  value of its \<^verbatim>\<open>properties\<close>, in its \<^verbatim>\<open>items\<close> or in its dict-valued
  \<^verbatim>\<open>additionalProperties\<close>, at any depth.
\<close>

function cyclic_through :: "string set \<Rightarrow> json \<Rightarrow> bool" where
  "cyclic_through R schema =
     (case schema of
        JObj kvs \<Rightarrow>
          if has_key kvs ''$ref'' then
            (case dget kvs ''$ref'' JNull of JStr r \<Rightarrow> r \<in> R | _ \<Rightarrow> False)
          else if has_key kvs ''allOf'' then
            (case dget kvs ''allOf'' JNull of
               JArr subs \<Rightarrow> list_ex (cyclic_through R) subs
             | _ \<Rightarrow> False)
          else if has_key kvs ''oneOf'' \<or> has_key kvs ''anyOf'' then
            (case choose_options kvs of
               JArr options \<Rightarrow>
                 (case non_null_options options of
                    [] \<Rightarrow> False
                  | first # rest \<Rightarrow> cyclic_through R first)
             | _ \<Rightarrow> False)
          else
            (case map_of kvs ''properties'' of
               Some (JObj props) \<Rightarrow> list_ex (\<lambda>p. cyclic_through R (snd p)) props
             | _ \<Rightarrow> False)
            \<or> (case map_of kvs ''items'' of
                 Some items \<Rightarrow> cyclic_through R items
               | None \<Rightarrow> False)
            \<or> (case map_of kvs ''additionalProperties'' of
                 Some (JObj ap) \<Rightarrow> cyclic_through R (JObj ap)
               | _ \<Rightarrow> False)
      | _ \<Rightarrow> False)"
  by pat_completeness auto
termination
proof (relation "measure (\<lambda>(R, schema). size schema)", goal_cases)
  case 1
  then show ?case by simp
next
  case (2 R schema kvs subs s)
  then show ?case
    using size_dget_any[of kvs "''allOf''" JNull] size_mem_arr[of s subs] by simp
next
  case (3 R schema kvs options first rest)
  have "first \<in> set (non_null_options options)" using 3 by simp
  then have "first \<in> set options" by (simp add: non_null_options_def)
  from size_choose_options[OF _ this] 3 show ?case by simp
next
  case (4 R schema kvs x2 props p)
  then show ?case
    using size_map_of[of kvs "''properties''" "JObj props"] size_snd_mem[of p props] by simp
next
  case (5 R schema kvs items)
  then show ?case using size_map_of[of kvs "''items''" items] by simp
next
  case (6 R schema kvs x2 ap)
  then show ?case using size_map_of[of kvs "''additionalProperties''" "JObj ap"] by simp
qed

declare cyclic_through.simps [simp del]



text \<open>
  \<open>cyclic_refs R doc\<close>: every reference of \<open>R\<close> points into the document, at a schema
  that leads to a reference of \<open>R\<close> again. A self-reference is \<open>R = {r}\<close> with \<open>r\<close>
  pointing at a node that refers to \<open>r\<close>; a chain \<open>A \<rightarrow> B \<rightarrow> A\<close> is \<open>R = {A, B}\<close>; a
  schema with a property that refers back to it is \<open>R = {r}\<close> again. \<open>uncached R c\<close>: no
  reference of \<open>R\<close> is in the cache (none is when a resolver starts).
\<close>

definition ref_target :: "json \<Rightarrow> string \<Rightarrow> json option" where
  "ref_target doc r = (if startswith r ''#/'' then walk doc (split CHR ''/'' (drop 2 r)) else None)"

definition cyclic_refs :: "string set \<Rightarrow> json \<Rightarrow> bool" where
  "cyclic_refs R doc = (\<forall>r\<in>R. case ref_target doc r of Some t \<Rightarrow> cyclic_through R t | None \<Rightarrow> False)"


definition uncached :: "string set \<Rightarrow> cache \<Rightarrow> bool" where
  "uncached R c = (\<forall>r\<in>R. c r = None)"

text \<open>
  Of a resolving function: a call that returns leaves the references of \<open>R\<close> out of the
  cache (\<open>keeps\<close>, \<open>keeps_ref\<close>, which also says that no reference of \<open>R\<close> resolves), and a
  call on a schema that leads to \<open>R\<close> does not return a schema (\<open>fails\<close>).
\<close>

definition keeps :: "string set \<Rightarrow> (cache \<Rightarrow> json \<Rightarrow> (json \<times> cache) result) \<Rightarrow> bool" where
  "keeps R rs = (\<forall>c t v c'. uncached R c \<longrightarrow> rs c t = Inr (v, c') \<longrightarrow> uncached R c')"

definition fails :: "string set \<Rightarrow> (cache \<Rightarrow> json \<Rightarrow> (json \<times> cache) result) \<Rightarrow> bool" where
  "fails R rs = (\<forall>c t. uncached R c \<longrightarrow> cyclic_through R t \<longrightarrow> isl (rs c t))"

definition keeps_ref :: "string set \<Rightarrow> (cache \<Rightarrow> json \<Rightarrow> (json \<times> cache) result) \<Rightarrow> bool" where
  "keeps_ref R rr = (\<forall>c ref v c'. uncached R c \<longrightarrow> rr c ref = Inr (v, c')
                       \<longrightarrow> uncached R c' \<and> (\<forall>r. ref = JStr r \<longrightarrow> r \<notin> R))"

lemma keepsD: "keeps R rs \<Longrightarrow> uncached R c \<Longrightarrow> rs c t = Inr (v, c') \<Longrightarrow> uncached R c'"
  unfolding keeps_def by blast

lemma failsD: "fails R rs \<Longrightarrow> uncached R c \<Longrightarrow> cyclic_through R t \<Longrightarrow> isl (rs c t)"
  unfolding fails_def by blast

lemma keeps_refD:
  "keeps_ref R rr \<Longrightarrow> uncached R c \<Longrightarrow> rr c ref = Inr (v, c')
     \<Longrightarrow> uncached R c' \<and> (\<forall>r. ref = JStr r \<longrightarrow> r \<notin> R)"
  unfolding keeps_ref_def by blast

lemma isl_thenE: "isl r \<Longrightarrow> isl (thenE r f)"
  by (cases r) (auto simp: thenE_def)

lemma resolve_values_keeps:
  assumes k: "keeps R rs"
  shows "uncached R c \<Longrightarrow> resolve_values rs c props = Inr (ps, c') \<Longrightarrow> uncached R c'"
proof (induction props arbitrary: c ps)
  case Nil
  then show ?case by simp
next
  case (Cons a props)
  obtain f v where a: "a = (f, v)" by (cases a)
  from Cons.prems(2) obtain v' c1 rest where
    1: "rs c v = Inr (v', c1)" and 2: "resolve_values rs c1 props = Inr (rest, c')"
    by (auto simp: a split: sum.splits)
  from Cons.IH[OF keepsD[OF k Cons.prems(1) 1] 2] show ?case .
qed

lemma resolve_values_fails:
  assumes k: "keeps R rs" and f: "fails R rs"
  shows "uncached R c \<Longrightarrow> list_ex (\<lambda>p. cyclic_through R (snd p)) props
           \<Longrightarrow> isl (resolve_values rs c props)"
proof (induction props arbitrary: c)
  case Nil
  then show ?case by simp
next
  case (Cons a props)
  obtain g v where a: "a = (g, v)" by (cases a)
  show ?case
  proof (cases "rs c v")
    case (Inl e)
    then show ?thesis by (simp add: a)
  next
    case (Inr x)
    obtain v' c1 where x: "x = (v', c1)" by (cases x)
    from Inr x have 1: "rs c v = Inr (v', c1)" by simp
    from failsD[OF f Cons.prems(1), of v] 1 have "\<not> cyclic_through R v" by auto
    with Cons.prems(2) have "list_ex (\<lambda>p. cyclic_through R (snd p)) props" by (simp add: a)
    from Cons.IH[OF keepsD[OF k Cons.prems(1) 1] this] 1 show ?thesis
      by (auto simp: a split: sum.splits)
  qed
qed

lemma merge_properties_keeps:
  assumes k: "keeps R rs" and u: "uncached R c"
    and m: "merge_properties rs c target source = Inr (t', c')"
  shows "uncached R c'"
proof -
  from m obtain present where pr: "py_in ''properties'' source = Inr present"
    unfolding merge_properties_def by (auto dest!: thenE_Inr)
  show ?thesis
  proof (cases present)
    case False
    with m pr u show ?thesis by (simp add: merge_properties_def thenE_def)
  next
    case True
    with m pr obtain props r where
      rs: "rs c (JObj [(''properties'', props)]) = Inr (r, c')"
      unfolding merge_properties_def by (auto simp: thenE_def split: sum.splits)
    from keepsD[OF k u rs] show ?thesis .
  qed
qed

lemma merge_schemas_keeps:
  assumes "keeps R rs" "uncached R c" "merge_schemas rs c target source = Inr (t', c')"
  shows "uncached R c'"
proof -
  from assms(3) obtain t1 where
    1: "merge_properties rs c target source = Inr (t1, c')"
    unfolding merge_schemas_def by (auto dest!: thenE_Inr simp del: merge_keys.simps)
  from merge_properties_keeps[OF assms(1,2) 1] show ?thesis .
qed

lemma merge_all_keeps:
  assumes k: "keeps R rs"
  shows "uncached R c \<Longrightarrow> merge_all rs c merged subs = Inr (m', c') \<Longrightarrow> uncached R c'"
proof (induction subs arbitrary: c merged)
  case Nil
  then show ?case by simp
next
  case (Cons s subs)
  from Cons.prems(2) obtain r c1 m1 c2 where
    1: "rs c s = Inr (r, c1)" and 2: "merge_schemas rs c1 merged r = Inr (m1, c2)"
    and 3: "merge_all rs c2 m1 subs = Inr (m', c')"
    by (auto split: sum.splits)
  from Cons.IH[OF merge_schemas_keeps[OF k keepsD[OF k Cons.prems(1) 1] 2] 3] show ?case .
qed

lemma merge_all_fails:
  assumes k: "keeps R rs" and f: "fails R rs"
  shows "uncached R c \<Longrightarrow> list_ex (cyclic_through R) subs \<Longrightarrow> isl (merge_all rs c merged subs)"
proof (induction subs arbitrary: c merged)
  case Nil
  then show ?case by simp
next
  case (Cons s subs)
  show ?case
  proof (cases "rs c s")
    case (Inl e)
    then show ?thesis by simp
  next
    case (Inr x)
    obtain r c1 where x: "x = (r, c1)" by (cases x)
    from Inr x have 1: "rs c s = Inr (r, c1)" by simp
    from failsD[OF f Cons.prems(1), of s] 1 have "\<not> cyclic_through R s" by auto
    with Cons.prems(2) have ex: "list_ex (cyclic_through R) subs" by simp
    show ?thesis
    proof (cases "merge_schemas rs c1 merged r")
      case (Inl e)
      with 1 show ?thesis by simp
    next
      case (Inr y)
      obtain m1 c2 where y: "y = (m1, c2)" by (cases y)
      from Inr y have 2: "merge_schemas rs c1 merged r = Inr (m1, c2)" by simp
      from Cons.IH[OF merge_schemas_keeps[OF k keepsD[OF k Cons.prems(1) 1] 2] ex, of m1] 1 2
      show ?thesis by simp
    qed
  qed
qed

lemma resolve_properties_keeps:
  assumes k: "keeps R rs" and u: "uncached R c"
    and r: "resolve_properties rs c kvs = Inr (r1, c1)"
  shows "uncached R c1"
    and "\<And>key. key \<noteq> ''properties'' \<Longrightarrow> map_of r1 key = map_of kvs key"
proof -
  have "uncached R c1 \<and> (\<forall>key. key \<noteq> ''properties'' \<longrightarrow> map_of r1 key = map_of kvs key)"
  proof (cases "has_key kvs ''properties''")
    case False
    with r u show ?thesis by (auto simp: resolve_properties_def)
  next
    case True
    with r obtain props props' where
      rv: "resolve_values rs c props = Inr (props', c1)"
      and r1: "r1 = setitem kvs ''properties'' (JObj props')"
      unfolding resolve_properties_def by (auto dest!: thenE_Inr split: json.splits)
    from resolve_values_keeps[OF k u rv] show ?thesis by (simp add: r1 map_of_setitem)
  qed
  then show "uncached R c1"
    and "\<And>key. key \<noteq> ''properties'' \<Longrightarrow> map_of r1 key = map_of kvs key" by simp_all
qed

lemma resolve_items_keeps:
  assumes k: "keeps R rs" and u: "uncached R c"
    and r: "resolve_items rs c kvs = Inr (r1, c1)"
  shows "uncached R c1"
    and "\<And>key. key \<noteq> ''items'' \<Longrightarrow> map_of r1 key = map_of kvs key"
proof -
  have "uncached R c1 \<and> (\<forall>key. key \<noteq> ''items'' \<longrightarrow> map_of r1 key = map_of kvs key)"
  proof (cases "has_key kvs ''items''")
    case False
    with r u show ?thesis by (auto simp: resolve_items_def)
  next
    case True
    with r obtain x where
      rx: "rs c (dget kvs ''items'' JNull) = Inr (x, c1)" and r1: "r1 = setitem kvs ''items'' x"
      unfolding resolve_items_def by (auto dest!: thenE_Inr)
    from keepsD[OF k u rx] show ?thesis by (simp add: r1 map_of_setitem)
  qed
  then show "uncached R c1"
    and "\<And>key. key \<noteq> ''items'' \<Longrightarrow> map_of r1 key = map_of kvs key" by simp_all
qed

lemma resolve_additional_keeps:
  assumes k: "keeps R rs" and u: "uncached R c"
    and r: "resolve_additional rs c kvs = Inr (r1, c1)"
  shows "uncached R c1"
proof (cases "\<exists>ap. map_of kvs ''additionalProperties'' = Some (JObj ap)")
  case False
  with r have "c1 = c"
    by (auto simp: resolve_additional_def split: option.splits json.splits)
  with u show ?thesis by simp
next
  case True
  then obtain ap where ap: "map_of kvs ''additionalProperties'' = Some (JObj ap)" by blast
  with r obtain x where rx: "rs c (JObj ap) = Inr (x, c1)"
    by (auto simp: resolve_additional_def dest!: thenE_Inr)
  from keepsD[OF k u rx] show ?thesis .
qed

lemma resolve_nested_keeps:
  assumes k: "keeps R rs" and u: "uncached R c"
    and r: "resolve_nested rs c kvs = Inr (v, c')"
  shows "uncached R c'"
proof -
  from r obtain r1 c1 r2 c2 r3 where
    1: "resolve_properties rs c kvs = Inr (r1, c1)"
    and 2: "resolve_items rs c1 r1 = Inr (r2, c2)"
    and 3: "resolve_additional rs c2 r2 = Inr (r3, c')"
    unfolding resolve_nested_def by (auto dest!: thenE_Inr)
  from resolve_additional_keeps[OF k resolve_items_keeps(1)[OF k resolve_properties_keeps(1)[OF k u 1] 2] 3]
  show ?thesis .
qed

lemma resolve_nested_fails:
  assumes k: "keeps R rs" and f: "fails R rs" and u: "uncached R c"
    and cy: "(case map_of kvs ''properties'' of
               Some (JObj props) \<Rightarrow> list_ex (\<lambda>p. cyclic_through R (snd p)) props
             | _ \<Rightarrow> False)
            \<or> (case map_of kvs ''items'' of
                 Some items \<Rightarrow> cyclic_through R items
               | None \<Rightarrow> False)
            \<or> (case map_of kvs ''additionalProperties'' of
                 Some (JObj ap) \<Rightarrow> cyclic_through R (JObj ap)
               | _ \<Rightarrow> False)"
  shows "isl (resolve_nested rs c kvs)"
proof (rule ccontr)
  assume "\<not> isl (resolve_nested rs c kvs)"
  then obtain v c' where r: "resolve_nested rs c kvs = Inr (v, c')"
    by (cases "resolve_nested rs c kvs") auto
  from r obtain r1 c1 r2 c2 r3 where
    1: "resolve_properties rs c kvs = Inr (r1, c1)"
    and 2: "resolve_items rs c1 r1 = Inr (r2, c2)"
    and 3: "resolve_additional rs c2 r2 = Inr (r3, c')"
    unfolding resolve_nested_def by (auto dest!: thenE_Inr)
  note u1 = resolve_properties_keeps(1)[OF k u 1]
  note s1 = resolve_properties_keeps(2)[OF k u 1]
  note u2 = resolve_items_keeps(1)[OF k u1 2]
  note s2 = resolve_items_keeps(2)[OF k u1 2]
  have np: "\<not> (case map_of kvs ''properties'' of
               Some (JObj props) \<Rightarrow> list_ex (\<lambda>p. cyclic_through R (snd p)) props
             | _ \<Rightarrow> False)"
  proof
    assume a: "case map_of kvs ''properties'' of
               Some (JObj props) \<Rightarrow> list_ex (\<lambda>p. cyclic_through R (snd p)) props
             | _ \<Rightarrow> False"
    then obtain props where p: "map_of kvs ''properties'' = Some (JObj props)"
      and ex: "list_ex (\<lambda>p. cyclic_through R (snd p)) props"
      by (auto split: option.splits json.splits)
    from p have "has_key kvs ''properties''" "dget kvs ''properties'' JNull = JObj props"
      by (simp_all add: has_key_def dget_def)
    with resolve_values_fails[OF k f u ex] 1 show False
      by (auto simp: resolve_properties_def thenE_def split: sum.splits)
  qed
  have ni: "\<not> (case map_of kvs ''items'' of Some items \<Rightarrow> cyclic_through R items | None \<Rightarrow> False)"
  proof
    assume "case map_of kvs ''items'' of Some items \<Rightarrow> cyclic_through R items | None \<Rightarrow> False"
    then obtain items where i: "map_of kvs ''items'' = Some items" and cy: "cyclic_through R items"
      by (auto split: option.splits)
    from i s1[of "''items''"] have "map_of r1 ''items'' = Some items" by simp
    then have "has_key r1 ''items''" "dget r1 ''items'' JNull = items"
      by (simp_all add: has_key_def dget_def)
    with failsD[OF f u1 cy] 2 show False
      by (auto simp: resolve_items_def thenE_def split: sum.splits)
  qed
  from cy np ni obtain ap where ap: "map_of kvs ''additionalProperties'' = Some (JObj ap)"
    and cya: "cyclic_through R (JObj ap)"
    by (auto split: option.splits json.splits)
  from ap s1[of "''additionalProperties''"] s2[of "''additionalProperties''"]
  have "map_of r2 ''additionalProperties'' = Some (JObj ap)" by simp
  with failsD[OF f u2 cya] 3 show False
    by (auto simp: resolve_additional_def thenE_def split: sum.splits)
qed

lemma cyclic_refs_target:
  "cyclic_refs R doc \<Longrightarrow> r \<in> R
     \<Longrightarrow> startswith r ''#/'' \<and> (\<exists>t. walk doc (split CHR ''/'' (drop 2 r)) = Some t \<and> cyclic_through R t)"
  unfolding cyclic_refs_def ref_target_def
  by (auto split: option.splits if_splits dest!: bspec)

lemma resolve_ref_body_keeps:
  assumes k: "keeps R rs" and f: "fails R rs" and cr: "cyclic_refs R doc"
  shows "keeps_ref R (resolve_ref_body rs doc)"
  unfolding keeps_ref_def
proof (intro allI impI)
  fix c ref v c'
  assume u: "uncached R c" and r: "resolve_ref_body rs doc c ref = Inr (v, c')"
  from r obtain rf where rf: "ref = JStr rf"
    by (cases ref) (auto simp: resolve_ref_body_def)
  have notin: "rf \<notin> R"
  proof
    assume inR: "rf \<in> R"
    from cyclic_refs_target[OF cr inR] obtain t where
      sw: "startswith rf ''#/''" and w: "walk doc (split CHR ''/'' (drop 2 rf)) = Some t"
      and cy: "cyclic_through R t" by blast
    from u inR have "c rf = None" by (simp add: uncached_def)
    with r rf sw w failsD[OF f u cy] show False
      by (auto simp: resolve_ref_body_def thenE_def split: sum.splits)
  qed
  have "uncached R c'"
  proof (cases "c rf")
    case (Some cached)
    with r rf u show ?thesis by (auto simp: resolve_ref_body_def)
  next
    case None
    show ?thesis
    proof (cases "startswith rf ''#/''")
      case False
      with r rf None u show ?thesis by (auto simp: resolve_ref_body_def)
    next
      case True
      show ?thesis
      proof (cases "walk doc (split CHR ''/'' (drop 2 rf))")
        case N: None
        with r rf None True u show ?thesis by (auto simp: resolve_ref_body_def)
      next
        case (Some t)
        from r rf None True Some obtain c1 where
          1: "rs c t = Inr (v, c1)" and c': "c' = c1(rf \<mapsto> v)"
          by (auto simp: resolve_ref_body_def dest!: thenE_Inr)
        from keepsD[OF k u 1] notin show ?thesis by (auto simp: c' uncached_def)
      qed
    qed
  qed
  with notin rf show "uncached R c' \<and> (\<forall>r. ref = JStr r \<longrightarrow> r \<notin> R)" by simp
qed

lemma resolve_schema_body_keeps:
  assumes kr: "keeps_ref R rr" and k: "keeps R rs"
  shows "keeps R (resolve_schema_body rr rs)"
  unfolding keeps_def
proof (intro allI impI)
  fix c t v c'
  assume u: "uncached R c" and r: "resolve_schema_body rr rs c t = Inr (v, c')"
  show "uncached R c'"
  proof (cases "\<exists>kvs. t = JObj kvs")
    case False
    with r have "c' = c" by (cases t; simp add: resolve_schema_body_def)
    with u show ?thesis by simp
  next
    case True
    then obtain kvs where t: "t = JObj kvs" by blast
    consider (ref) "has_key kvs ''$ref''"
      | (allOf) "\<not> has_key kvs ''$ref''" "has_key kvs ''allOf''"
      | (oneOf) "\<not> has_key kvs ''$ref''" "\<not> has_key kvs ''allOf''"
                "has_key kvs ''oneOf'' \<or> has_key kvs ''anyOf''"
      | (leaf) "\<not> has_key kvs ''$ref''" "\<not> has_key kvs ''allOf''"
                "\<not> has_key kvs ''oneOf''" "\<not> has_key kvs ''anyOf''"
      by blast
    then show ?thesis
    proof cases
      case ref
      with r t obtain x where 1: "rr c (dget kvs ''$ref'' JNull) = Inr (x, c')"
        by (auto simp: resolve_schema_body_def dest!: thenE_Inr)
      from keeps_refD[OF kr u 1] show ?thesis by simp
    next
      case allOf
      with r t obtain subs merged where
        2: "merge_all rs c [(''type'', JStr ''object''), (''properties'', JObj []),
                        (''required'', JArr [])] subs = Inr (merged, c')"
        by (auto simp: resolve_schema_body_def dest!: thenE_Inr)
      from merge_all_keeps[OF k u 2] show ?thesis .
    next
      case oneOf
      with r t obtain options where
        2: "(case non_null_options options of
                 [] \<Rightarrow> Inr (JObj [(''type'', JStr ''null''), (''_nullable'', JBool True)], c)
               | first # _ \<Rightarrow>
                   thenE (rs c first) (\<lambda>(resolved, c').
                     thenE (py_dict resolved) (\<lambda>result.
                       Inr (JObj (setitem result ''_nullable'' (JBool True)), c')))) = Inr (v, c')"
        by (auto simp: resolve_schema_body_def dest!: thenE_Inr)
      show ?thesis
      proof (cases "non_null_options options")
        case Nil
        with 2 u show ?thesis by simp
      next
        case (Cons first rest)
        with 2 obtain x where 3: "rs c first = Inr (x, c')" by (auto dest!: thenE_Inr)
        from keepsD[OF k u 3] show ?thesis .
      qed
    next
      case leaf
      with r t have "resolve_nested rs c kvs = Inr (v, c')"
        by (simp add: resolve_schema_body_def)
      from resolve_nested_keeps[OF k u this] show ?thesis .
    qed
  qed
qed

lemma resolve_schema_body_fails:
  assumes kr: "keeps_ref R rr" and k: "keeps R rs" and f: "fails R rs"
  shows "fails R (resolve_schema_body rr rs)"
  unfolding fails_def
proof (intro allI impI)
  fix c t
  assume u: "uncached R c" and cy: "cyclic_through R t"
  from cy obtain kvs where t: "t = JObj kvs"
    by (cases t) (simp_all add: cyclic_through.simps)
  consider (ref) "has_key kvs ''$ref''"
    | (allOf) "\<not> has_key kvs ''$ref''" "has_key kvs ''allOf''"
    | (oneOf) "\<not> has_key kvs ''$ref''" "\<not> has_key kvs ''allOf''"
              "has_key kvs ''oneOf'' \<or> has_key kvs ''anyOf''"
    | (leaf) "\<not> has_key kvs ''$ref''" "\<not> has_key kvs ''allOf''"
              "\<not> has_key kvs ''oneOf''" "\<not> has_key kvs ''anyOf''"
    by blast
  then show "isl (resolve_schema_body rr rs c t)"
  proof cases
    case ref
    with cy t obtain r where d: "dget kvs ''$ref'' JNull = JStr r" and inR: "r \<in> R"
      by (subst (asm) cyclic_through.simps) (auto split: json.splits)
    have "isl (rr c (JStr r))"
    proof (cases "rr c (JStr r)")
      case (Inr x)
      obtain v c' where "x = (v, c')" by (cases x)
      with Inr keeps_refD[OF kr u, of "JStr r" v c'] inR show ?thesis by simp
    qed simp
    with ref t d show ?thesis by (simp add: resolve_schema_body_def isl_thenE)
  next
    case allOf
    with cy t obtain subs where d: "dget kvs ''allOf'' JNull = JArr subs"
      and ex: "list_ex (cyclic_through R) subs"
      by (subst (asm) cyclic_through.simps) (auto split: json.splits)
    from merge_all_fails[OF k f u ex] allOf t d show ?thesis
      by (simp add: resolve_schema_body_def isl_thenE thenE_def[of "Inr subs"])
  next
    case oneOf
    with cy t obtain options first rest where d: "choose_options kvs = JArr options"
      and nn: "non_null_options options = first # rest" and cf: "cyclic_through R first"
      by (subst (asm) cyclic_through.simps) (auto split: json.splits list.splits)
    from failsD[OF f u cf] oneOf t d nn show ?thesis
      by (auto simp: resolve_schema_body_def thenE_def split: sum.splits)
  next
    case leaf
    with cy t have "(case map_of kvs ''properties'' of
               Some (JObj props) \<Rightarrow> list_ex (\<lambda>p. cyclic_through R (snd p)) props
             | _ \<Rightarrow> False)
            \<or> (case map_of kvs ''items'' of
                 Some items \<Rightarrow> cyclic_through R items
               | None \<Rightarrow> False)
            \<or> (case map_of kvs ''additionalProperties'' of
                 Some (JObj ap) \<Rightarrow> cyclic_through R (JObj ap)
               | _ \<Rightarrow> False)"
      by (subst (asm) cyclic_through.simps) simp
    from resolve_nested_fails[OF k f u this] leaf t show ?thesis
      by (simp add: resolve_schema_body_def)
  qed
qed

lemma resolve_cyclic:
  assumes cr: "cyclic_refs R doc"
  shows "keeps R (resolve_schema n doc) \<and> fails R (resolve_schema n doc)
         \<and> keeps_ref R (resolve_ref n doc)"
proof (induction n)
  case 0
  show ?case by (simp add: keeps_def fails_def keeps_ref_def)
next
  case (Suc n)
  have 1: "resolve_schema (Suc n) doc = resolve_schema_body (resolve_ref n doc) (resolve_schema n doc)"
    by (intro ext) simp
  have 2: "resolve_ref (Suc n) doc = resolve_ref_body (resolve_schema n doc) doc"
    by (intro ext) simp
  from Suc show ?case
    unfolding 1 2
    by (auto intro: resolve_schema_body_keeps resolve_schema_body_fails
                    resolve_ref_body_keeps[OF _ _ cr])
qed












definition caches_uncached :: "string set \<Rightarrow> string set \<Rightarrow> check_state \<Rightarrow> bool" where
  "caches_uncached Ro Rh st = (case st of (report, co, ch) \<Rightarrow> uncached Ro co \<and> uncached Rh ch)"

lemma compare_body_keeps:
  assumes co: "cyclic_refs Ro openai_spec" and ch: "cyclic_refs Rh hadrian_spec"
    and u: "uncached Ro co" "uncached Rh ch"
    and r: "compare_body str limit openai_spec hadrian_spec co ch openai_body hadrian_body ctx
              pth m loc = Inr (dv, co', ch')"
  shows "uncached Ro co' \<and> uncached Rh ch'"
proof (cases "truthy openai_body \<and> truthy hadrian_body")
  case False
  with r u show ?thesis by (auto simp: compare_body_def)
next
  case True
  with r obtain ro rh where
    1: "resolve_schema limit openai_spec co openai_body = Inr (ro, co')"
    and 2: "resolve_schema limit hadrian_spec ch hadrian_body = Inr (rh, ch')"
    by (auto simp: compare_body_def dest!: thenE_Inr)
  from resolve_cyclic[OF co, of limit] have ko: "keeps Ro (resolve_schema limit openai_spec)" by simp
  from resolve_cyclic[OF ch, of limit] have kh: "keeps Rh (resolve_schema limit hadrian_spec)" by simp
  from keepsD[OF ko u(1) 1] keepsD[OF kh u(2) 2] show ?thesis by simp
qed


lemma compare_endpoint_keeps:
  assumes co: "cyclic_refs Ro openai_spec" and ch: "cyclic_refs Rh hadrian_spec"
    and u: "uncached Ro co" "uncached Rh ch"
    and r: "compare_endpoint str limit openai_spec hadrian_spec co ch pth method openai_op
              hadrian_op = Inr (res, co', ch')"
  shows "uncached Ro co' \<and> uncached Rh ch'"
proof -
  from r obtain ob hb dv1 co1 ch1 orp hrp dv2 where
    1: "compare_body str limit openai_spec hadrian_spec co ch ob hb
              (pth @ '' request'') pth (upper method) ''request'' = Inr (dv1, co1, ch1)"
    and 2: "compare_body str limit openai_spec hadrian_spec co1 ch1 orp hrp
              (pth @ '' response'') pth (upper method) ''response'' = Inr (dv2, co', ch')"
    unfolding compare_endpoint_def by (auto dest!: thenE_Inr)
  from compare_body_keeps[OF co ch u 1] have "uncached Ro co1" "uncached Rh ch1" by simp_all
  from compare_body_keeps[OF co ch this 2] show ?thesis .
qed


lemma check_method_keeps:
  assumes co: "cyclic_refs Ro openai_spec" and ch: "cyclic_refs Rh hadrian_spec"
    and u: "caches_uncached Ro Rh st"
    and r: "check_method str limit openai_spec hadrian_spec openai_path openai_methods
              hadrian_methods method st = Inr st'"
  shows "caches_uncached Ro Rh st'"
proof -
  obtain report c1 c2 where st: "st = (report, c1, c2)" by (cases st)
  from u st have u': "uncached Ro c1" "uncached Rh c2" by (simp_all add: caches_uncached_def)
  from r st obtain present where pr: "py_in method hadrian_methods = Inr present"
    by (auto simp: check_method_def Let_def dest!: thenE_Inr)
  show ?thesis
  proof (cases present)
    case False
    with r st pr u' show ?thesis
      by (auto simp: check_method_def Let_def thenE_def caches_uncached_def)
  next
    case True
    with r st pr obtain op hop res co' ch' report' where
      ce: "compare_endpoint str limit openai_spec hadrian_spec c1 c2 openai_path method op hop
             = Inr (res, co', ch')"
      and st': "st' = (report', co', ch')"
      by (auto simp: check_method_def Let_def thenE_def split: sum.splits if_splits)
    from compare_endpoint_keeps[OF co ch u' ce] st' show ?thesis
      by (simp add: caches_uncached_def)
  qed
qed


lemma method_loop_keeps:
  assumes co: "cyclic_refs Ro openai_spec" and ch: "cyclic_refs Rh hadrian_spec"
  shows "caches_uncached Ro Rh st
     \<Longrightarrow> method_loop str limit openai_spec hadrian_spec openai_path openai_methods
           hadrian_methods methods st = Inr st'
     \<Longrightarrow> caches_uncached Ro Rh st'"
proof (induction methods arbitrary: st)
  case Nil
  then show ?case by simp
next
  case (Cons m methods)
  from Cons.prems(2) obtain present where pr: "py_in m openai_methods = Inr present"
    by (auto split: sum.splits)
  show ?case
  proof (cases "\<not> present \<or> is_method_out_of_scope openai_path m")
    case True
    with Cons.prems(2) pr have "method_loop str limit openai_spec hadrian_spec openai_path
        openai_methods hadrian_methods methods st = Inr st'"
      by (auto split: if_splits)
    from Cons.IH[OF Cons.prems(1) this] show ?thesis .
  next
    case False
    with Cons.prems(2) pr obtain st1 where
      1: "check_method str limit openai_spec hadrian_spec openai_path openai_methods
            hadrian_methods m st = Inr st1"
      and 2: "method_loop str limit openai_spec hadrian_spec openai_path
        openai_methods hadrian_methods methods st1 = Inr st'"
      by (auto split: sum.splits)
    from Cons.IH[OF check_method_keeps[OF co ch Cons.prems(1) 1] 2] show ?thesis .
  qed
qed


lemma path_loop_keeps:
  assumes co: "cyclic_refs Ro openai_spec" and ch: "cyclic_refs Rh hadrian_spec"
  shows "caches_uncached Ro Rh st
     \<Longrightarrow> path_loop str limit openai_spec hadrian_spec endpoint_filter hadrian_paths ops st = Inr st'
     \<Longrightarrow> caches_uncached Ro Rh st'"
proof (induction ops arbitrary: st)
  case Nil
  then show ?case by simp
next
  case (Cons entry ops)
  obtain openai_path openai_methods where e: "entry = (openai_path, openai_methods)" by (cases entry)
  obtain report c1 c2 where st: "st = (report, c1, c2)" by (cases st)
  show ?case
  proof (cases "is_out_of_scope openai_path")
    case True
    with Cons.prems(2) e st have "path_loop str limit openai_spec hadrian_spec endpoint_filter
        hadrian_paths ops
        (report\<lparr>out_of_scope_endpoints := out_of_scope_endpoints report @ [openai_path]\<rparr>, c1, c2)
        = Inr st'" by simp
    moreover from Cons.prems(1) st have "caches_uncached Ro Rh
        (report\<lparr>out_of_scope_endpoints := out_of_scope_endpoints report @ [openai_path]\<rparr>, c1, c2)"
      by (simp add: caches_uncached_def)
    ultimately show ?thesis by (rule Cons.IH[rotated])
  next
    case False
    show ?thesis
    proof (cases "case endpoint_filter of None \<Rightarrow> False
                   | Some f \<Rightarrow> f \<noteq> [] \<and> \<not> substring f openai_path")
      case True
      with False Cons.prems(2) e st have "path_loop str limit openai_spec hadrian_spec
          endpoint_filter hadrian_paths ops st = Inr st'" by simp
      from Cons.IH[OF Cons.prems(1) this] show ?thesis .
    next
      case F: False
      with False Cons.prems(2) e st obtain hadrian_methods st1 where
        1: "method_loop str limit openai_spec hadrian_spec openai_path openai_methods
              hadrian_methods METHODS st = Inr st1"
        and 2: "path_loop str limit openai_spec hadrian_spec endpoint_filter hadrian_paths ops st1
              = Inr st'"
        by (auto split: sum.splits)
      from Cons.IH[OF method_loop_keeps[OF co ch Cons.prems(1) 1] 2] show ?thesis .
    qed
  qed
qed










section \<open>Zero violations\<close>




end
